theory Spec2Isabelle
  imports Main "HOL-Library.Word" "HOL-Library.Signed_Division"
begin

section \<open>Bare-Metal Test framework: the formatter, the reporter, the registry and the runner\<close>

text \<open>
  The development follows \<^verbatim>\<open>src/bmt_runner.c\<close> and the macros of
  \<^verbatim>\<open>include/baremetal_test.h\<close>. C strings are modelled by their contents (a
  \<open>string\<close> without the terminating NUL); a character array that the code writes through a
  pointer is a \<open>char list\<close> of the array's size, and a write or read outside of it is a
  value of \<open>error\<close>. The C type \<open>long\<close> is a word: the conversion routine is polymorphic
  in its width, and its callers use the 32-bit \<open>long\<close> of the ARM target of
  \<^verbatim>\<open>examples/xilinx_zynq7000\<close>.
\<close>

subsection \<open>Errors, machine integers and character arrays\<close>

datatype error =
    Buffer_overflow       \<comment> \<open>a write past the end of a character array\<close>
  | Out_of_bounds_read    \<comment> \<open>a read past the terminating NUL of a string\<close>
  | Bad_va_arg            \<comment> \<open>\<open>va_arg\<close> with no argument left, or one of another type\<close>
  | Null_call             \<comment> \<open>a call through a NULL function pointer\<close>

type_synonym long = "32 word"
type_synonym uint32_t = "32 word"

definition NUL :: char where
  "NUL = CHR 0x00"

definition CR_LF :: string where
  "CR_LF = [CHR 0x0D, CHR 0x0A]"

text \<open>
  A fresh automatic array of \<open>n\<close> characters. C leaves its contents indeterminate; the
  model fills it with a byte that is not NUL, so that no reader finds a terminator the code
  did not write.
\<close>

definition stack_array :: "nat \<Rightarrow> char list" where
  "stack_array n = replicate n (CHR 0xAA)"

text \<open>\<open>*p = c\<close> for a pointer at offset \<open>p\<close> of the array \<open>buf\<close>.\<close>

definition poke :: "char list \<Rightarrow> int \<Rightarrow> char \<Rightarrow> error + char list" where
  "poke buf p c =
     (if 0 \<le> p \<and> p < int (length buf) then Inr (buf[nat p := c]) else Inl Buffer_overflow)"

text \<open>The string that a reader of the array sees: everything before the first NUL.\<close>

definition c_str :: "char list \<Rightarrow> string" where
  "c_str buf = takeWhile (\<lambda>c. c \<noteq> NUL) buf"

text \<open>\<open>strcpy(buf, src)\<close>: the characters of \<open>src\<close> and the terminator.\<close>

definition strcpy :: "char list \<Rightarrow> string \<Rightarrow> error + char list" where
  "strcpy buf src =
     (if length src + 1 \<le> length buf
      then Inr (src @ [NUL] @ drop (length src + 1) buf)
      else Inl Buffer_overflow)"

text \<open>\<open>strcat(buf, src)\<close>: \<open>src\<close> and the terminator, written from the first NUL of \<open>buf\<close>.\<close>

definition strcat :: "char list \<Rightarrow> string \<Rightarrow> error + char list" where
  "strcat buf src =
     (let cur = c_str buf in
      if length cur + length src + 1 \<le> length buf
      then Inr (cur @ src @ [NUL] @ drop (length cur + length src + 1) buf)
      else Inl Buffer_overflow)"

text \<open>\<open>strncat(buf, src, n)\<close>: at most \<open>n\<close> characters of \<open>src\<close>, and always the terminator.\<close>

definition strncat :: "char list \<Rightarrow> string \<Rightarrow> nat \<Rightarrow> error + char list" where
  "strncat buf src n = strcat buf (take n src)"

subsection \<open>\<open>bmt_itoa\<close>\<close>

text \<open>
  The two loops of \<open>bmt_itoa\<close> run on the value of the local \<open>long\<close> variable, read as an
  integer. They divide a positive value by ten, which never leaves the range of the type, so
  C's truncating \<open>/\<close> and \<open>%\<close> are \<open>sdiv\<close> and \<open>smod\<close> on \<open>int\<close>. The one operation that
  can leave the range, the negation \<open>t = -t\<close>, is done on the word and wraps around (C
  leaves that overflow undefined; the two's complement targets wrap).
\<close>

text \<open>\<open>while (temp > 0) { temp /= 10; num_digits++; }\<close>\<close>

function itoa_count_digits :: "int \<Rightarrow> int \<Rightarrow> int" where
  "itoa_count_digits temp num_digits =
     (if temp > 0 then itoa_count_digits (temp sdiv 10) (num_digits + 1) else num_digits)"
  by pat_completeness auto
termination
  by (relation "measure (\<lambda>(temp, num_digits). nat temp)")
     (auto simp: signed_divide_int_def sgn_if)

declare itoa_count_digits.simps [simp del]

text \<open>\<open>while (t > 0) { *p-- = (t % 10) + '0'; t /= 10; }\<close>\<close>

function itoa_write_digits :: "int \<Rightarrow> int \<Rightarrow> char list \<Rightarrow> error + char list" where
  "itoa_write_digits t p buf =
     (if t > 0
      then (case poke buf p (char_of (t smod 10 + 48)) of
              Inl e \<Rightarrow> Inl e
            | Inr buf' \<Rightarrow> itoa_write_digits (t sdiv 10) (p - 1) buf')
      else Inr buf)"
  by pat_completeness auto
termination
  by (relation "measure (\<lambda>(t, p, buf). nat t)")
     (auto simp: signed_divide_int_def sgn_if)

declare itoa_write_digits.simps [simp del]

definition bmt_itoa :: "'a::len word \<Rightarrow> char list \<Rightarrow> int \<Rightarrow> error + char list" where
  "bmt_itoa val buf radix =
     (if radix \<noteq> 10 then strcpy buf ''radix_err''
      else if val = 0 then strcpy buf ''0''
      else
        (case (if val <s 0
               then (case poke buf 0 (CHR ''-'') of
                       Inl e \<Rightarrow> Inl e
                     | Inr buf1 \<Rightarrow> Inr (sint (- val), 1, buf1))
               else Inr (sint val, 0, buf)) of
           Inl e \<Rightarrow> Inl e
         | Inr (t, p, buf1) \<Rightarrow>
             (let num_digits = itoa_count_digits t 0;
                  p' = p + num_digits
              in case poke buf1 p' NUL of
                   Inl e \<Rightarrow> Inl e
                 | Inr buf2 \<Rightarrow> itoa_write_digits t (p' - 1) buf2)))"

subsection \<open>The platform layer and the state a test body can reach\<close>

text \<open>
  A test body, the reporter and the runner share the output channel, the tick counter and
  the global \<open>g_bmt_current_test_failed_expect\<close>; \<open>user\<close> is whatever else the program
  under test keeps in memory.
\<close>

record 'u world =
  emitted :: string
  tick_source :: "nat \<Rightarrow> uint32_t"
  tick_reads :: nat
  g_bmt_current_test_failed_expect :: bool
  user :: 'u

text \<open>
  Modelled from the spec: the four functions of \<^verbatim>\<open>bmt_platform_io.h\<close> are written by the
  user of the framework for each target. The output channel is the text emitted so far; the
  tick counter answers its \<open>n\<close>-th read with \<open>tick_source n\<close>, an arbitrary sequence.
\<close>

definition bmt_platform_io_init :: "'u world \<Rightarrow> 'u world" where
  "bmt_platform_io_init w = w"

definition bmt_platform_putchar :: "char \<Rightarrow> 'u world \<Rightarrow> 'u world" where
  "bmt_platform_putchar c w = w\<lparr>emitted := emitted w @ [c]\<rparr>"

definition bmt_platform_puts :: "string \<Rightarrow> 'u world \<Rightarrow> 'u world" where
  "bmt_platform_puts str w = w\<lparr>emitted := emitted w @ str\<rparr>"

definition bmt_platform_get_msec_ticks :: "'u world \<Rightarrow> uint32_t \<times> 'u world" where
  "bmt_platform_get_msec_ticks w = (tick_source w (tick_reads w), w\<lparr>tick_reads := tick_reads w + 1\<rparr>)"

subsection \<open>\<open>bmt_report_failure\<close>\<close>

text \<open>The variadic arguments: what \<open>va_arg\<close> can be asked for, and anything else.\<close>

datatype va_arg = Str_arg "string option" | Long_arg long | Other_arg

text \<open>
  \<open>*p\<close> for a pointer at offset \<open>p\<close> of a string: its characters, then the terminator, then
  memory that is not the string's.
\<close>

definition peek :: "string \<Rightarrow> nat \<Rightarrow> error + char" where
  "peek str p =
     (if p < length str then Inr (str ! p)
      else if p = length str then Inr NUL
      else Inl Out_of_bounds_read)"

text \<open>The loop \<open>while (*p) { ... p++; }\<close> over \<open>msg_fmt\<close>, lines 150 to 169.\<close>

function format_message :: "string \<Rightarrow> nat \<Rightarrow> va_arg list \<Rightarrow> 'u world \<Rightarrow> error + 'u world" where
  "format_message msg_fmt p args w =
     (case peek msg_fmt p of
        Inl e \<Rightarrow> Inl e
      | Inr c \<Rightarrow>
          if c = NUL then Inr w
          else if c = CHR ''%'' then
            (case peek msg_fmt (p + 1) of
               Inl e \<Rightarrow> Inl e
             | Inr d \<Rightarrow>
                 if d = CHR ''s'' then
                   (case args of
                      Str_arg s_arg # rest \<Rightarrow>
                        format_message msg_fmt (p + 2) rest
                          (bmt_platform_puts (case s_arg of Some str \<Rightarrow> str | None \<Rightarrow> ''(null)'') w)
                    | _ \<Rightarrow> Inl Bad_va_arg)
                 else if d = CHR ''l'' \<and> peek msg_fmt (p + 2) = Inr (CHR ''d'') then
                   (case args of
                      Long_arg d_arg # rest \<Rightarrow>
                        (case bmt_itoa d_arg (stack_array 20) 10 of
                           Inl e \<Rightarrow> Inl e
                         | Inr temp_buf \<Rightarrow>
                             format_message msg_fmt (p + 3) rest
                               (bmt_platform_puts (c_str temp_buf) w))
                    | _ \<Rightarrow> Inl Bad_va_arg)
                 else
                   format_message msg_fmt (p + 2) args
                     (bmt_platform_putchar d (bmt_platform_putchar (CHR ''%'') w)))
          else format_message msg_fmt (p + 1) args (bmt_platform_putchar c w))"
  by pat_completeness auto
termination
  by (relation "measure (\<lambda>(msg_fmt, p, args, w). length msg_fmt + 3 - p)")
     (auto simp: peek_def split: if_splits)

declare format_message.simps [simp del]

text \<open>
  Lines 135 to 139: the indented line is built in \<open>char buffer[256]\<close>. The bound given to
  \<open>strncat\<close> is computed in \<open>size_t\<close>, taken as 32 bits wide.
\<close>

definition failure_line :: "string \<Rightarrow> string \<Rightarrow> error + char list" where
  "failure_line assertion_type expression =
     (case strcpy (stack_array 256) ''  '' of
        Inl e \<Rightarrow> Inl e
      | Inr b1 \<Rightarrow>
     (case strcat b1 assertion_type of
        Inl e \<Rightarrow> Inl e
      | Inr b2 \<Rightarrow>
     (case strcat b2 ''('' of
        Inl e \<Rightarrow> Inl e
      | Inr b3 \<Rightarrow>
     (case strncat b3 expression (nat ((256 - int (length (c_str b3)) - 2) mod 2 ^ 32)) of
        Inl e \<Rightarrow> Inl e
      | Inr b4 \<Rightarrow> strcat b4 ('')'' @ CR_LF)))))"

definition bmt_report_failure ::
  "string \<Rightarrow> 32 word \<Rightarrow> string \<Rightarrow> string \<Rightarrow> string option \<Rightarrow> va_arg list \<Rightarrow> 'u world \<Rightarrow> error + 'u world" where
  "bmt_report_failure file line assertion_type expression msg_fmt args w =
     (let w1 = bmt_platform_putchar (CHR '':'') (bmt_platform_puts file w) in
      case bmt_itoa (scast line :: long) (stack_array 12) 10 of
        Inl e \<Rightarrow> Inl e
      | Inr line_buf \<Rightarrow>
          (let w2 = bmt_platform_puts ('': Failure'' @ CR_LF) (bmt_platform_puts (c_str line_buf) w1) in
           case failure_line assertion_type expression of
             Inl e \<Rightarrow> Inl e
           | Inr buffer \<Rightarrow>
               (let w3 = bmt_platform_puts (c_str buffer) w2 in
                case msg_fmt of
                  None \<Rightarrow> Inr w3
                | Some fmt \<Rightarrow>
                    (case format_message fmt 0 args (bmt_platform_puts ''    Message: '' w3) of
                       Inl e \<Rightarrow> Inl e
                     | Inr w4 \<Rightarrow> Inr (bmt_platform_puts CR_LF w4)))))"

subsection \<open>Test bodies and the assertion macros\<close>

text \<open>
  A test body is a C function \<open>void f(void)\<close>. It returns, or it leaves through
  \<open>longjmp\<close> with the memory as it is at that moment, or it runs into undefined behaviour.
  A body that never returns is not modelled, nor is one that registers a test or starts a run
  while the run is in progress: the registry is out of the reach of a body.
\<close>

datatype 'w exit = Normal 'w | Longjmp 'w | Fault error

type_synonym 'u test_body = "'u world \<Rightarrow> 'u world exit"

text \<open>\<open>a; b\<close>: the statement \<open>b\<close> runs when \<open>a\<close> has completed normally.\<close>

definition seq_stmt :: "'u test_body \<Rightarrow> 'u test_body \<Rightarrow> 'u test_body" where
  "seq_stmt a b w = (case a w of Normal w' \<Rightarrow> b w' | Longjmp w' \<Rightarrow> Longjmp w' | Fault e \<Rightarrow> Fault e)"

definition bmt_terminate_current_test :: "'u test_body" where
  "bmt_terminate_current_test w = Longjmp w"

text \<open>
  The macros take \<open>__FILE__\<close> and \<open>__LINE__\<close> as arguments here, and the value of
  \<open>condition\<close> at the point of the check.
\<close>

definition BMT_ASSERT_COMMON ::
  "bool \<Rightarrow> string \<Rightarrow> 32 word \<Rightarrow> string \<Rightarrow> string \<Rightarrow> string option \<Rightarrow> va_arg list \<Rightarrow> 'u test_body" where
  "BMT_ASSERT_COMMON condition file line assertion_type expr_str msg_fmt args w =
     (if \<not> condition
      then (case bmt_report_failure file line assertion_type expr_str msg_fmt args w of
              Inl e \<Rightarrow> Fault e
            | Inr w' \<Rightarrow> bmt_terminate_current_test w')
      else Normal w)"

definition BMT_EXPECT_COMMON ::
  "bool \<Rightarrow> string \<Rightarrow> 32 word \<Rightarrow> string \<Rightarrow> string \<Rightarrow> string option \<Rightarrow> va_arg list \<Rightarrow> 'u test_body" where
  "BMT_EXPECT_COMMON condition file line assertion_type expr_str msg_fmt args w =
     (if \<not> condition
      then (case bmt_report_failure file line assertion_type expr_str msg_fmt args w of
              Inl e \<Rightarrow> Fault e
            | Inr w' \<Rightarrow> Normal (w'\<lparr>g_bmt_current_test_failed_expect := True\<rparr>))
      else Normal w)"

definition FAIL :: "string \<Rightarrow> 32 word \<Rightarrow> 'u test_body" where
  "FAIL file line =
     BMT_ASSERT_COMMON False file line ''FAIL'' ''Explicit failure triggered by FAIL()'' None []"

definition ADD_FAILURE :: "string \<Rightarrow> 32 word \<Rightarrow> 'u test_body" where
  "ADD_FAILURE file line w =
     (case bmt_report_failure file line ''ADD_FAILURE''
             ''Explicit failure triggered by ADD_FAILURE()'' None [] w of
        Inl e \<Rightarrow> Fault e
      | Inr w' \<Rightarrow> Normal w')"

definition EXPECT_TRUE :: "bool \<Rightarrow> string \<Rightarrow> string \<Rightarrow> 32 word \<Rightarrow> 'u test_body" where
  "EXPECT_TRUE condition condition_text file line =
     BMT_EXPECT_COMMON condition file line ''EXPECT_TRUE'' condition_text None []"

definition ASSERT_TRUE :: "bool \<Rightarrow> string \<Rightarrow> string \<Rightarrow> 32 word \<Rightarrow> 'u test_body" where
  "ASSERT_TRUE condition condition_text file line =
     BMT_ASSERT_COMMON condition file line ''ASSERT_TRUE'' condition_text None []"

text \<open>
  \<open>strncmp\<close> is the C library's: it compares at most \<open>n\<close> characters of two strings and stops
  at the first difference or at their end. The standard fixes the sign of a nonzero result;
  here it is the difference of the two characters.
\<close>

fun strncmp :: "string \<Rightarrow> string \<Rightarrow> nat \<Rightarrow> int" where
  "strncmp s1 s2 0 = 0"
| "strncmp [] [] (Suc n) = 0"
| "strncmp [] (b # s2) (Suc n) = - int (of_char b)"
| "strncmp (a # s1) [] (Suc n) = int (of_char a)"
| "strncmp (a # s1) (b # s2) (Suc n) =
     (if a = b then strncmp s1 s2 n else int (of_char a) - int (of_char b))"

text \<open>
  \<open>ASSERT_STRNEQ(s1, s2, n)\<close> and \<open>EXPECT_STRNEQ(s1, s2, n)\<close>, lines 304 to 306 and 580 to 582
  of the header. A string argument is \<open>None\<close> for \<open>NULL\<close>; the macros also take the source
  texts of their three arguments, which \<open>#s1\<close>, \<open>#n\<close> and \<open>#s2\<close> paste into the expression.
  The variadic arguments are \<open>(unsigned int)(n)\<close>, which is neither a string nor a \<open>long\<close>,
  and the two strings, \<open>"NULL"\<close> standing for a null pointer.
\<close>

definition ASSERT_STRNEQ ::
  "string option \<Rightarrow> string \<Rightarrow> string option \<Rightarrow> string \<Rightarrow> 32 word \<Rightarrow> string \<Rightarrow> string \<Rightarrow> 32 word \<Rightarrow> 'u test_body" where
  \<open>ASSERT_STRNEQ s1 s1_text s2 s2_text n n_text file line =
     BMT_ASSERT_COMMON
       (case s1 of None \<Rightarrow> False
        | Some a \<Rightarrow> (case s2 of None \<Rightarrow> False | Some b \<Rightarrow> strncmp a b (unat n) = 0))
       file line ''ASSERT_STRNEQ'' (s1_text @ '' STRNEQ('' @ n_text @ '') '' @ s2_text)
       (Some ''Expected first %u chars: "%s", Actual: "%s"'')
       [Other_arg,
        Str_arg (Some (case s1 of Some str \<Rightarrow> str | None \<Rightarrow> ''NULL'')),
        Str_arg (Some (case s2 of Some str \<Rightarrow> str | None \<Rightarrow> ''NULL''))]\<close>

definition EXPECT_STRNEQ ::
  "string option \<Rightarrow> string \<Rightarrow> string option \<Rightarrow> string \<Rightarrow> 32 word \<Rightarrow> string \<Rightarrow> string \<Rightarrow> 32 word \<Rightarrow> 'u test_body" where
  \<open>EXPECT_STRNEQ s1 s1_text s2 s2_text n n_text file line =
     BMT_EXPECT_COMMON
       (case s1 of None \<Rightarrow> False
        | Some a \<Rightarrow> (case s2 of None \<Rightarrow> False | Some b \<Rightarrow> strncmp a b (unat n) = 0))
       file line ''EXPECT_STRNEQ'' (s1_text @ '' STRNEQ('' @ n_text @ '') '' @ s2_text)
       (Some ''Expected first %u chars: "%s", Actual: "%s"'')
       [Other_arg,
        Str_arg (Some (case s1 of Some str \<Rightarrow> str | None \<Rightarrow> ''NULL'')),
        Str_arg (Some (case s2 of Some str \<Rightarrow> str | None \<Rightarrow> ''NULL''))]\<close>

subsection \<open>The registry\<close>

definition BMT_MAX_TEST_CASES :: nat where
  "BMT_MAX_TEST_CASES = 64"

definition BMT_MAX_TEST_NAME_LEN :: nat where
  "BMT_MAX_TEST_NAME_LEN = 64"

definition BMT_MAX_SUITE_NAME_LEN :: nat where
  "BMT_MAX_SUITE_NAME_LEN = 64"

text \<open>
  The two names are character arrays of 64 bytes that always hold a terminated string; the
  fields of the model are those strings. \<open>func\<close> is a function pointer, \<open>None\<close> when NULL.
  The count of the registry and the index of the loops are of type \<open>int\<close> in C and stay between
  0 and the capacity: they are natural numbers here.
\<close>

record 'u bmt_test_case_t =
  suite_name :: string
  test_name :: string
  func :: "'u test_body option"
  last_run_passed :: bool
  duration_ms :: uint32_t

record 'u bmt_state =
  g_bmt_test_cases :: "'u bmt_test_case_t list"
  g_bmt_test_count :: nat
  world :: "'u world"

text \<open>The statics of the runner at program start: a zeroed array, no test, the flag false.\<close>

definition zero_test_case :: "'u bmt_test_case_t" where
  "zero_test_case =
     \<lparr>suite_name = [], test_name = [], func = None, last_run_passed = False, duration_ms = 0\<rparr>"

definition program_start :: "(nat \<Rightarrow> uint32_t) \<Rightarrow> 'u \<Rightarrow> 'u bmt_state" where
  "program_start ticks u =
     \<lparr>g_bmt_test_cases = replicate BMT_MAX_TEST_CASES zero_test_case,
      g_bmt_test_count = 0,
      world = \<lparr>emitted = [], tick_source = ticks, tick_reads = 0,
               g_bmt_current_test_failed_expect = False, user = u\<rparr>\<rparr>"

text \<open>\<open>strncpy(dst, src, n - 1); dst[n - 1] = '\0';\<close> leaves the first \<open>n - 1\<close> characters.\<close>

definition bmt_register_test ::
  "string \<Rightarrow> string \<Rightarrow> 'u test_body option \<Rightarrow> 'u bmt_state \<Rightarrow> 'u bmt_state" where
  "bmt_register_test suite_name' test_name' func' s =
     (if g_bmt_test_count s < BMT_MAX_TEST_CASES
      then s\<lparr>g_bmt_test_cases :=
               (g_bmt_test_cases s)[g_bmt_test_count s :=
                  \<lparr>suite_name = take (BMT_MAX_SUITE_NAME_LEN - 1) suite_name',
                   test_name = take (BMT_MAX_TEST_NAME_LEN - 1) test_name',
                   func = func',
                   last_run_passed = False,
                   duration_ms = 0\<rparr>],
             g_bmt_test_count := g_bmt_test_count s + 1\<rparr>
      else s\<lparr>world := bmt_platform_puts
                 (''ERROR: Max test cases reached. Increase BMT_MAX_TEST_CASES.'' @ CR_LF) (world s)\<rparr>)"

text \<open>The constructors that the \<open>TEST\<close> macro generates run before \<open>main\<close>, one per test.\<close>

fun register_all :: "(string \<times> string \<times> 'u test_body) list \<Rightarrow> 'u bmt_state \<Rightarrow> 'u bmt_state" where
  "register_all [] s = s"
| "register_all ((suite, name, body) # tests) s =
     register_all tests (bmt_register_test suite name (Some body) s)"

subsection \<open>\<open>bmt_run_all_tests\<close>\<close>

text \<open>The locals of \<open>bmt_run_all_tests\<close> that live across the loop.\<close>

record run_locals =
  buffer :: "char list"
  tests_passed :: int
  tests_failed :: int
  total_duration_ms :: uint32_t

text \<open>\<open>bmt_itoa(x, buffer, 10); bmt_platform_puts(buffer);\<close>\<close>

definition puts_long :: "long \<Rightarrow> run_locals \<Rightarrow> 'u world \<Rightarrow> error + run_locals \<times> 'u world" where
  "puts_long x l w =
     (case bmt_itoa x (buffer l) 10 of
        Inl e \<Rightarrow> Inl e
      | Inr buf \<Rightarrow> Inr (l\<lparr>buffer := buf\<rparr>, bmt_platform_puts (c_str buf) w))"

text \<open>\<open>suite.name\<close>, as the loop, the result line and the list of failures print it.\<close>

definition puts_test_id :: "'u bmt_test_case_t \<Rightarrow> 'u world \<Rightarrow> 'u world" where
  "puts_test_id tc w =
     bmt_platform_puts (test_name tc) (bmt_platform_putchar (CHR ''.'') (bmt_platform_puts (suite_name tc) w))"

text \<open>Line 245, in \<open>uint32_t\<close> arithmetic.\<close>

definition elapsed_ticks :: "uint32_t \<Rightarrow> uint32_t \<Rightarrow> uint32_t" where
  "elapsed_ticks start_ticks end_ticks =
     (if end_ticks \<ge> start_ticks then end_ticks - start_ticks
      else 0xFFFFFFFF - start_ticks + end_ticks + 1)"

text \<open>Lines 224 to 233: the notification, the reset of the flag, the first read of the clock.\<close>

definition start_test :: "nat \<Rightarrow> 'u bmt_state \<Rightarrow> uint32_t \<times> 'u world" where
  "start_test i s =
     (let tc = g_bmt_test_cases s ! i;
          w1 = bmt_platform_puts CR_LF (puts_test_id tc (bmt_platform_puts ''[ RUN      ] '' (world s)));
          w2 = w1\<lparr>g_bmt_current_test_failed_expect := False\<rparr>
      in bmt_platform_get_msec_ticks w2)"

text \<open>
  Lines 243 to 263, with \<open>current_test_passed_assert\<close> as the branch of \<open>setjmp\<close> left it and
  \<open>w\<close> the memory after the body.
\<close>

definition finish_test ::
  "nat \<Rightarrow> uint32_t \<Rightarrow> bool \<Rightarrow> run_locals \<Rightarrow> 'u bmt_state \<Rightarrow> 'u world \<Rightarrow> error + run_locals \<times> 'u bmt_state" where
  "finish_test i start_ticks current_test_passed_assert l s w =
     (let (end_ticks, w1) = bmt_platform_get_msec_ticks w;
          d = elapsed_ticks start_ticks end_ticks;
          passed = (current_test_passed_assert \<and> \<not> g_bmt_current_test_failed_expect w1);
          tc = (g_bmt_test_cases s ! i)\<lparr>duration_ms := d, last_run_passed := passed\<rparr>;
          l1 = l\<lparr>total_duration_ms := total_duration_ms l + d\<rparr>;
          l2 = (if passed then l1\<lparr>tests_passed := tests_passed l1 + 1\<rparr>
                else l1\<lparr>tests_failed := tests_failed l1 + 1\<rparr>);
          w2 = bmt_platform_puts (if passed then ''[       OK ] '' else ''[  FAILED  ] '') w1;
          w3 = bmt_platform_puts '' ('' (puts_test_id tc w2)
      in case puts_long (ucast d) l2 w3 of
           Inl e \<Rightarrow> Inl e
         | Inr (l3, w4) \<Rightarrow>
             Inr (l3, s\<lparr>g_bmt_test_cases := (g_bmt_test_cases s)[i := tc],
                        world := bmt_platform_puts ('' ms)'' @ CR_LF) w4\<rparr>))"

text \<open>
  One iteration of the loop of lines 223 to 264. \<open>setjmp\<close> returns 0 and the body is
  called; a \<open>longjmp\<close> from the body makes \<open>setjmp\<close> return again, with 1.
\<close>

definition run_test :: "nat \<Rightarrow> run_locals \<Rightarrow> 'u bmt_state \<Rightarrow> error + run_locals \<times> 'u bmt_state" where
  "run_test i l s =
     (let (start_ticks, w) = start_test i s in
      case func (g_bmt_test_cases s ! i) of
        None \<Rightarrow> Inl Null_call
      | Some f \<Rightarrow>
          (case f w of
             Normal w' \<Rightarrow> finish_test i start_ticks True l s w'
           | Longjmp w' \<Rightarrow> finish_test i start_ticks False l s w'
           | Fault e \<Rightarrow> Inl e))"

lemma finish_test_count:
  "finish_test i start_ticks b l s w = Inr (l', s') \<Longrightarrow> g_bmt_test_count s' = g_bmt_test_count s"
  by (auto simp: finish_test_def Let_def split: prod.splits sum.splits)

lemma run_test_count:
  "run_test i l s = Inr (l', s') \<Longrightarrow> g_bmt_test_count s' = g_bmt_test_count s"
  by (auto simp: run_test_def Let_def split: prod.splits option.splits exit.splits
           dest: finish_test_count)

text \<open>\<open>for (int i = 0; i < g_bmt_test_count; ++i) { ... }\<close>, lines 223 to 264.\<close>

function run_loop :: "nat \<Rightarrow> run_locals \<Rightarrow> 'u bmt_state \<Rightarrow> error + run_locals \<times> 'u bmt_state" where
  "run_loop i l s =
     (if i < g_bmt_test_count s
      then (case run_test i l s of
              Inl e \<Rightarrow> Inl e
            | Inr (l', s') \<Rightarrow> run_loop (i + 1) l' s')
      else Inr (l, s))"
  by pat_completeness auto
termination
  by (relation "measure (\<lambda>(i, l, s). g_bmt_test_count s - i)")
     (auto dest: run_test_count)

declare run_loop.simps [simp del]

text \<open>The loop of lines 284 to 292.\<close>

function list_failed_tests :: "nat \<Rightarrow> 'u bmt_state \<Rightarrow> 'u bmt_state" where
  "list_failed_tests i s =
     (if i < g_bmt_test_count s
      then list_failed_tests (i + 1)
             (if \<not> last_run_passed (g_bmt_test_cases s ! i)
              then s\<lparr>world := bmt_platform_puts CR_LF
                        (puts_test_id (g_bmt_test_cases s ! i)
                           (bmt_platform_puts ''[  FAILED  ] '' (world s)))\<rparr>
              else s)
      else s)"
  by pat_completeness auto
termination
  by (relation "measure (\<lambda>(i, s). g_bmt_test_count s - i)") auto

declare list_failed_tests.simps [simp del]

text \<open>Lines 266 to 277: the number of tests, the total duration, the number that passed.\<close>

definition summary_totals :: "run_locals \<Rightarrow> 'u bmt_state \<Rightarrow> error + run_locals \<times> 'u bmt_state" where
  "summary_totals l s =
     (case puts_long (of_nat (g_bmt_test_count s)) l (bmt_platform_puts ''[==========] '' (world s)) of
        Inl e \<Rightarrow> Inl e
      | Inr (l1, w1) \<Rightarrow>
     (case puts_long (ucast (total_duration_ms l1)) l1 (bmt_platform_puts '' tests ran. ('' w1) of
        Inl e \<Rightarrow> Inl e
      | Inr (l2, w2) \<Rightarrow>
     (case puts_long (word_of_int (tests_passed l2)) l2
             (bmt_platform_puts ''[  PASSED  ] '' (bmt_platform_puts ('' ms total)'' @ CR_LF) w2)) of
        Inl e \<Rightarrow> Inl e
      | Inr (l3, w3) \<Rightarrow> Inr (l3, s\<lparr>world := bmt_platform_puts ('' tests.'' @ CR_LF) w3\<rparr>))))"

text \<open>Lines 279 to 293: the failing tests, when there is one.\<close>

definition summary_failures :: "run_locals \<Rightarrow> 'u bmt_state \<Rightarrow> error + run_locals \<times> 'u bmt_state" where
  "summary_failures l s =
     (if tests_failed l > 0
      then (case puts_long (word_of_int (tests_failed l)) l
                   (bmt_platform_puts ''[  FAILED  ] '' (world s)) of
              Inl e \<Rightarrow> Inl e
            | Inr (l1, w1) \<Rightarrow>
                Inr (l1, list_failed_tests 0
                           (s\<lparr>world := bmt_platform_puts ('' tests, listed below:'' @ CR_LF) w1\<rparr>)))
      else Inr (l, s))"

text \<open>Lines 294 to 303: the last line and the value returned.\<close>

definition summary_verdict :: "run_locals \<Rightarrow> 'u bmt_state \<Rightarrow> error + int \<times> 'u bmt_state" where
  "summary_verdict l s =
     (case puts_long (word_of_int (tests_failed l)) l (bmt_platform_puts CR_LF (world s)) of
        Inl e \<Rightarrow> Inl e
      | Inr (l1, w1) \<Rightarrow>
          Inr (tests_failed l1,
               s\<lparr>world := bmt_platform_puts
                   ((if tests_failed l1 = 1 then '' FAILED TEST'' else '' FAILED TESTS'') @ CR_LF) w1\<rparr>))"

text \<open>Lines 211 to 221: the platform is initialised, the header printed, the counters zeroed.\<close>

definition run_header :: "'u bmt_state \<Rightarrow> error + run_locals \<times> 'u bmt_state" where
  "run_header s =
     (let l = \<lparr>buffer = stack_array 128, tests_passed = 0, tests_failed = 0, total_duration_ms = 0\<rparr> in
      case puts_long (of_nat (g_bmt_test_count s)) l
             (bmt_platform_puts ''[==========] Running '' (bmt_platform_io_init (world s))) of
        Inl e \<Rightarrow> Inl e
      | Inr (l1, w1) \<Rightarrow> Inr (l1, s\<lparr>world := bmt_platform_puts ('' tests.'' @ CR_LF) w1\<rparr>))"

definition bmt_run_all_tests :: "'u bmt_state \<Rightarrow> error + int \<times> 'u bmt_state" where
  "bmt_run_all_tests s =
     (case run_header s of
        Inl e \<Rightarrow> Inl e
      | Inr (l0, s0) \<Rightarrow>
     (case run_loop 0 l0 s0 of
        Inl e \<Rightarrow> Inl e
      | Inr (l1, s1) \<Rightarrow>
     (case summary_totals l1 s1 of
        Inl e \<Rightarrow> Inl e
      | Inr (l2, s2) \<Rightarrow>
     (case summary_failures l2 s2 of
        Inl e \<Rightarrow> Inl e
      | Inr (l3, s3) \<Rightarrow> summary_verdict l3 s3))))"

section \<open>The formatter\<close>

subsection \<open>Decimal numerals\<close>

text \<open>
  The decimal digits of a natural number, most significant first, as the specification
  words them; \<open>decimal_value\<close> reads such a numeral back.
\<close>

definition digit_char :: "nat \<Rightarrow> char" where
  "digit_char d = char_of (48 + d)"

fun decimal :: "nat \<Rightarrow> string" where
  "decimal n = (if n < 10 then [digit_char n] else decimal (n div 10) @ [digit_char (n mod 10)])"

declare decimal.simps [simp del]

lemma decimal_small: "n < 10 \<Longrightarrow> decimal n = [digit_char n]"
  by (subst decimal.simps) simp

lemma decimal_large: "\<not> n < 10 \<Longrightarrow> decimal n = decimal (n div 10) @ [digit_char (n mod 10)]"
  by (subst decimal.simps) simp

lemma length_decimal_pos: "0 < length (decimal n)"
  by (subst decimal.simps) simp

lemma sdiv_pos: "0 < n \<Longrightarrow> int n sdiv 10 = int (n div 10)"
  by (simp add: signed_divide_int_def sgn_if zdiv_int)

lemma smod_pos: "0 < n \<Longrightarrow> char_of (int n smod 10 + 48) = digit_char (n mod 10)"
proof -
  assume "0 < n"
  then have "int n smod 10 + 48 = int (48 + n mod 10)"
    by (simp add: signed_modulo_int_def sgn_if zmod_int)
  then show ?thesis
    unfolding digit_char_def by (metis char_of_nat)
qed

lemma itoa_count_digits_done [simp]: "t \<le> 0 \<Longrightarrow> itoa_count_digits t k = k"
  by (subst itoa_count_digits.simps) simp

lemma itoa_write_digits_done [simp]: "t \<le> 0 \<Longrightarrow> itoa_write_digits t p buf = Inr buf"
  by (subst itoa_write_digits.simps) simp

lemma itoa_count_digits_step:
  "0 < n \<Longrightarrow> itoa_count_digits (int n) k = itoa_count_digits (int (n div 10)) (k + 1)"
  by (subst itoa_count_digits.simps) (simp add: sdiv_pos)

lemma itoa_count_digits_decimal:
  "0 < n \<Longrightarrow> itoa_count_digits (int n) k = k + int (length (decimal n))"
proof (induction n arbitrary: k rule: decimal.induct)
  case (1 n)
  show ?case
  proof (cases "n < 10")
    case True
    then show ?thesis using 1(2)
      by (simp add: itoa_count_digits_step decimal_small)
  next
    case False
    then have pos: "0 < n div 10" by simp
    have "itoa_count_digits (int n) k = itoa_count_digits (int (n div 10)) (k + 1)"
      using 1(2) by (rule itoa_count_digits_step)
    also have "\<dots> = (k + 1) + int (length (decimal (n div 10)))"
      using False pos by (rule 1(1))
    finally show ?thesis using False by (simp add: decimal_large)
  qed
qed

lemma itoa_write_digits_step:
  "0 < n \<Longrightarrow> p < length buf \<Longrightarrow>
   itoa_write_digits (int n) (int p) buf =
     itoa_write_digits (int (n div 10)) (int p - 1) (buf[p := digit_char (n mod 10)])"
  by (subst itoa_write_digits.simps) (simp add: sdiv_pos smod_pos poke_def)

lemma itoa_write_digits_decimal:
  "0 < n \<Longrightarrow> q + length (decimal n) \<le> length buf \<Longrightarrow>
   itoa_write_digits (int n) (int (q + length (decimal n)) - 1) buf =
     Inr (take q buf @ decimal n @ drop (q + length (decimal n)) buf)"
proof (induction n arbitrary: buf rule: decimal.induct)
  case (1 n)
  show ?case
  proof (cases "n < 10")
    case True
    have "itoa_write_digits (int n) (int q) buf = Inr (buf[q := digit_char n])"
      using 1(2,3) True by (simp add: itoa_write_digits_step decimal_small)
    moreover have "buf[q := digit_char n] = take q buf @ [digit_char n] @ drop (q + 1) buf"
      using 1(3) True by (simp add: decimal_small upd_conv_take_nth_drop)
    ultimately show ?thesis using True by (simp add: decimal_small)
  next
    case False
    let ?m = "n div 10" and ?d = "digit_char (n mod 10)"
    let ?k = "length (decimal ?m)"
    have len: "length (decimal n) = ?k + 1" using False by (simp add: decimal_large)
    have pos: "0 < ?m" using False by simp
    let ?buf' = "buf[q + ?k := ?d]"
    have fits: "q + ?k < length buf" using 1(3) len by simp
    have "itoa_write_digits (int n) (int (q + length (decimal n)) - 1) buf =
          itoa_write_digits (int n) (int (q + ?k)) buf"
      by (simp add: len)
    also have "\<dots> = itoa_write_digits (int ?m) (int (q + ?k) - 1) ?buf'"
      using 1(2) fits by (rule itoa_write_digits_step)
    also have "\<dots> = Inr (take q ?buf' @ decimal ?m @ drop (q + ?k) ?buf')"
      using 1(1) [OF False pos, of ?buf'] fits by simp
    also have "take q ?buf' = take q buf" by simp
    also have "drop (q + ?k) ?buf' = ?d # drop (q + length (decimal n)) buf"
      using fits by (simp add: len drop_update_cancel upd_conv_take_nth_drop)
    finally show ?thesis using False by (simp add: decimal_large)
  qed
qed


lemma of_char_digit_char: "d < 10 \<Longrightarrow> of_char (digit_char d) = 48 + d"
  by (simp add: digit_char_def)

lemma digit_char_not_NUL: "d < 10 \<Longrightarrow> digit_char d \<noteq> NUL"
proof
  assume "d < 10" and "digit_char d = NUL"
  then have "(of_char NUL :: nat) = 48 + d" using of_char_digit_char by metis
  then show False by (simp add: NUL_def)
qed

lemma decimal_digits: "set (decimal n) \<subseteq> digit_char ` {..<10}"
proof (induction n rule: decimal.induct)
  case (1 n)
  show ?case
  proof (cases "n < 10")
    case True
    then show ?thesis by (simp add: decimal_small)
  next
    case False
    with 1 show ?thesis by (auto simp: decimal_large)
  qed
qed

lemma decimal_no_NUL: "NUL \<notin> set (decimal n)"
  using decimal_digits [of n] digit_char_not_NUL by fastforce

lemma c_str_terminated: "NUL \<notin> set str \<Longrightarrow> c_str (str @ NUL # rest) = str"
  by (induction str) (auto simp: c_str_def)

lemma bmt_itoa_positive:
  fixes val :: "'a::len word"
  assumes "0 <s val" and "length (decimal (nat (sint val))) + 1 \<le> length buf"
  shows "bmt_itoa val buf 10 =
           Inr (decimal (nat (sint val)) @ NUL # drop (length (decimal (nat (sint val))) + 1) buf)"
proof -
  let ?n = "nat (sint val)"
  let ?k = "length (decimal ?n)"
  have pos: "0 < sint val" using assms(1) by (simp add: word_sless_alt)
  then have n: "int ?n = sint val" "0 < ?n" by simp_all
  have nz: "val \<noteq> 0" using pos by auto
  have nneg: "\<not> val <s 0" using pos by (simp add: word_sless_alt)
  have cnt: "itoa_count_digits (sint val) 0 = int ?k"
    using itoa_count_digits_decimal [OF n(2), of 0] n(1) by simp
  have wr: "itoa_write_digits (sint val) (int ?k - 1) (buf[?k := NUL]) =
        Inr (take 0 (buf[?k := NUL]) @ decimal ?n @ drop (0 + ?k) (buf[?k := NUL]))"
    using itoa_write_digits_decimal [OF n(2), of 0 "buf[?k := NUL]"] n(1) assms(2) by simp
  have "drop ?k (buf[?k := NUL]) = NUL # drop (?k + 1) buf"
    using assms(2) by (simp add: upd_conv_take_nth_drop)
  with wr cnt nz nneg assms(2) show ?thesis
    by (simp add: bmt_itoa_def poke_def Let_def)
qed


lemma bmt_itoa_negative:
  fixes val :: "'a::len word"
  assumes "val <s 0" and "sint val \<noteq> - (2 ^ (LENGTH('a) - 1))"
    and "length (decimal (nat (- sint val))) + 2 \<le> length buf"
  shows "bmt_itoa val buf 10 =
           Inr (CHR ''-'' # decimal (nat (- sint val)) @ NUL #
                drop (length (decimal (nat (- sint val))) + 2) buf)"
proof -
  let ?n = "nat (- sint val)"
  let ?k = "length (decimal ?n)"
  have neg: "sint val < 0" using assms(1) by (simp add: word_sless_alt)
  have "- (2 ^ (LENGTH('a) - 1)) < sint val"
    using assms(2) sint_ge [of val] by simp
  then have sm: "sint (- val) = - sint val"
    using neg by (simp add: sint_word_minus signed_take_bit_int_eq_self)
  have n: "int ?n = sint (- val)" "0 < ?n" using neg sm by simp_all
  have nz: "val \<noteq> 0" using neg by auto
  let ?b1 = "buf[0 := CHR ''-'']"
  let ?b2 = "?b1[Suc ?k := NUL]"
  have cnt: "itoa_count_digits (sint (- val)) 0 = int ?k"
    using itoa_count_digits_decimal [OF n(2), of 0] n(1) by simp
  have wr: "itoa_write_digits (sint (- val)) (int ?k) ?b2 =
        Inr (take 1 ?b2 @ decimal ?n @ drop (1 + ?k) ?b2)"
    using itoa_write_digits_decimal [OF n(2), of 1 ?b2] n(1) assms(3) by simp
  have "drop (1 + ?k) ?b2 = NUL # drop (?k + 2) buf"
    using assms(3) by (simp add: upd_conv_take_nth_drop drop_update_cancel)
  moreover have "take 1 ?b2 = [CHR ''-'']"
    using assms(3) by (cases buf) simp_all
  moreover have "buf \<noteq> []" using assms(3) by auto
  moreover have "nat (1 + int ?k) = Suc ?k" by simp
  ultimately show ?thesis using wr cnt nz assms(1,3)
    by (simp add: bmt_itoa_def poke_def Let_def)
qed

lemma signed_take_bit_power: "signed_take_bit n (2 ^ n :: int) = - (2 ^ n)"
  by (simp add: signed_take_bit_eq_take_bit_shift take_bit_eq_mod)

lemma bmt_itoa_most_negative:
  fixes val :: "'a::len word"
  assumes "sint val = - (2 ^ (LENGTH('a) - 1))" and "2 \<le> length buf"
  shows "bmt_itoa val buf 10 = Inr (CHR ''-'' # NUL # drop 2 buf)"
proof -
  have neg: "sint val < 0" using assms(1) by simp
  then have lt: "val <s 0" by (simp add: word_sless_alt)
  have nz: "val \<noteq> 0" using neg by auto
  have "sint (- val) = signed_take_bit (LENGTH('a) - 1) (2 ^ (LENGTH('a) - 1) :: int)"
    using assms(1) by (simp add: sint_word_minus)
  also have "\<dots> = - (2 ^ (LENGTH('a) - 1))"
    by (rule signed_take_bit_power)
  finally have "sint (- val) \<le> 0" by simp
  moreover have "buf \<noteq> []" using assms(2) by auto
  moreover have "buf[0 := CHR ''-'', Suc 0 := NUL] = CHR ''-'' # NUL # drop 2 buf"
    using assms(2) by (cases buf; cases "tl buf") auto
  ultimately show ?thesis using lt nz assms(2)
    by (simp add: bmt_itoa_def poke_def Let_def)
qed

definition digit_value :: "char \<Rightarrow> nat" where
  "digit_value c = of_char c - 48"

definition decimal_value :: "string \<Rightarrow> nat" where
  "decimal_value str = foldl (\<lambda>acc c. 10 * acc + digit_value c) 0 str"

lemma digit_value_digit_char: "d < 10 \<Longrightarrow> digit_value (digit_char d) = d"
  by (simp add: digit_value_def of_char_digit_char)

lemma decimal_value_decimal: "decimal_value (decimal n) = n"
proof (induction n rule: decimal.induct)
  case (1 n)
  show ?case
  proof (cases "n < 10")
    case True
    then show ?thesis by (simp add: decimal_small decimal_value_def digit_value_digit_char)
  next
    case False
    with 1 show ?thesis
      by (simp add: decimal_large decimal_value_def digit_value_digit_char)
  qed
qed

lemma digit_char_0: "digit_char 0 = CHR ''0''"
  by (simp add: digit_char_def char_of_eq_iff)

lemma digit_char_eq_0: "d < 10 \<Longrightarrow> digit_char d = CHR ''0'' \<Longrightarrow> d = 0"
  using digit_value_digit_char [of d] digit_value_digit_char [of 0] by (simp add: digit_char_0)

lemma hd_decimal: "0 < n \<Longrightarrow> hd (decimal n) \<noteq> CHR ''0''"
proof (induction n rule: decimal.induct)
  case (1 n)
  show ?case
  proof (cases "n < 10")
    case True
    then show ?thesis using 1(2) digit_char_eq_0 [of n] by (auto simp: decimal_small)
  next
    case False
    then have "0 < n div 10" by simp
    with 1 False show ?thesis
      using length_decimal_pos [of "n div 10"] by (simp add: decimal_large)
  qed
qed

lemma length_decimal_le: "n < 10 ^ k \<Longrightarrow> 0 < k \<Longrightarrow> length (decimal n) \<le> k"
proof (induction n arbitrary: k rule: decimal.induct)
  case (1 n)
  show ?case
  proof (cases "n < 10")
    case True
    then show ?thesis using 1(3) by (simp add: decimal_small)
  next
    case False
    then obtain j where k: "k = Suc j" "0 < j"
      using 1(2,3) by (cases k; cases "k - 1") auto
    have "n div 10 < 10 ^ j" using 1(2) k by (simp add: less_mult_imp_div_less)
    then have "length (decimal (n div 10)) \<le> j" using 1(1) False k by simp
    then show ?thesis using False k by (simp add: decimal_large)
  qed
qed

text \<open>
  The text that \<open>bmt_itoa\<close> leaves in a buffer that is large enough. The most negative
  value is its own negation in two's complement: the loops see a value that is not positive
  and write no digit.
\<close>

definition itoa_text :: "'a::len word \<Rightarrow> string" where
  "itoa_text val =
     (if val = 0 then ''0''
      else if 0 <s val then decimal (nat (sint val))
      else if sint val = - (2 ^ (LENGTH('a) - 1)) then ''-''
      else CHR ''-'' # decimal (nat (- sint val)))"

lemma length_itoa_text_long: "length (itoa_text (val :: long)) \<le> 11"
proof -
  have "sint val < 2 ^ 31" "- (2 ^ 31) \<le> sint val"
    using sint_lt [of val] sint_ge [of val] by simp_all
  then have "nat (sint val) < 10 ^ 10" "nat (- sint val) < 10 ^ 10"
    by simp_all
  then have "length (decimal (nat (sint val))) \<le> 10" "length (decimal (nat (- sint val))) \<le> 10"
    by (simp_all add: length_decimal_le)
  then show ?thesis by (simp add: itoa_text_def)
qed

lemma NUL_itoa_text: "NUL \<notin> set (itoa_text val)"
  by (simp add: itoa_text_def decimal_no_NUL) (simp add: NUL_def)

lemma bmt_itoa_text:
  fixes val :: "'a::len word"
  assumes "length (itoa_text val) < length buf"
  shows "bmt_itoa val buf 10 = Inr (itoa_text val @ NUL # drop (length (itoa_text val) + 1) buf)"
proof -
  consider "val = 0" | "0 <s val" | "val <s 0" "sint val \<noteq> - (2 ^ (LENGTH('a) - 1))"
    | "sint val = - (2 ^ (LENGTH('a) - 1))"
    by (metis signed.less_linear)
  then show ?thesis
  proof cases
    case 1
    then show ?thesis using assms by (simp add: bmt_itoa_def itoa_text_def strcpy_def)
  next
    case 2
    then have "val \<noteq> 0" by auto
    with 2 assms show ?thesis by (simp add: itoa_text_def bmt_itoa_positive)
  next
    case 3
    then have "val \<noteq> 0" "\<not> 0 <s val" by auto
    with 3 assms show ?thesis by (simp add: itoa_text_def bmt_itoa_negative)
  next
    case 4
    then have "sint val < 0" by simp
    then have "val \<noteq> 0" "\<not> 0 <s val" by (auto simp: word_sless_alt)
    with 4 assms show ?thesis
      by (simp add: itoa_text_def bmt_itoa_most_negative numeral_2_eq_2)
  qed
qed

subsection \<open>Printing a \<open>long\<close>\<close>

lemmas platform_defs =
  bmt_platform_puts_def bmt_platform_putchar_def bmt_platform_get_msec_ticks_def
  bmt_platform_io_init_def puts_test_id_def

text \<open>The array after \<open>bmt_itoa\<close>: the text, its terminator, what was there before.\<close>

definition after_itoa :: "'a::len word \<Rightarrow> char list \<Rightarrow> char list" where
  "after_itoa val buf = itoa_text val @ NUL # drop (length (itoa_text val) + 1) buf"

lemma length_after_itoa:
  "length (itoa_text val) < length buf \<Longrightarrow> length (after_itoa val buf) = length buf"
  by (simp add: after_itoa_def)

lemma c_str_after_itoa: "c_str (after_itoa val buf) = itoa_text val"
  by (simp add: after_itoa_def c_str_terminated NUL_itoa_text)

lemma puts_long_ok:
  "12 \<le> length (buffer l) \<Longrightarrow>
   puts_long x l w = Inr (l\<lparr>buffer := after_itoa x (buffer l)\<rparr>, bmt_platform_puts (itoa_text x) w)"
  using length_itoa_text_long [of x]
  by (simp add: puts_long_def bmt_itoa_text after_itoa_def c_str_terminated NUL_itoa_text)

lemma length_after_itoa_long:
  "12 \<le> length buf \<Longrightarrow> length (after_itoa (x :: long) buf) = length buf"
  using length_itoa_text_long [of x] by (simp add: length_after_itoa)

text \<open>The duration and the verdict that lines 243 to 248 store in the descriptor.\<close>

definition test_result :: "uint32_t \<Rightarrow> bool \<Rightarrow> 'u world \<Rightarrow> uint32_t \<times> bool" where
  "test_result start_ticks passed_assert w =
     (elapsed_ticks start_ticks (tick_source w (tick_reads w)),
      passed_assert \<and> \<not> g_bmt_current_test_failed_expect w)"

lemma bmt_itoa_renders_decimal:
  fixes val :: "'a::len word"
  assumes "sint val \<noteq> - (2 ^ (LENGTH('a) - 1))" and "length (itoa_text val) < length buf"
  shows "\<exists>buf'. bmt_itoa val buf 10 = Inr buf' \<and>
           c_str buf' = (if val <s 0 then CHR ''-'' # decimal (nat (- sint val))
                         else decimal (nat (sint val)))"
proof -
  have shape: "itoa_text val = (if val <s 0 then CHR ''-'' # decimal (nat (- sint val))
                         else decimal (nat (sint val)))"
  proof (cases "val = 0")
    case True
    then show ?thesis by (simp add: itoa_text_def decimal_small digit_char_0)
  next
    case False
    then have "0 <s val \<or> val <s 0" by (metis signed.less_linear)
    then show ?thesis using False assms(1) by (auto simp: itoa_text_def)
  qed
  have "bmt_itoa val buf 10 = Inr (itoa_text val @ NUL # drop (length (itoa_text val) + 1) buf)"
    using assms(2) by (rule bmt_itoa_text)
  moreover have "c_str (itoa_text val @ NUL # drop (length (itoa_text val) + 1) buf) = itoa_text val"
    using NUL_itoa_text by (rule c_str_terminated)
  ultimately show ?thesis using shape by metis
qed

lemma sint_of_nat_long: "n < 2 ^ 31 \<Longrightarrow> sint (of_nat n :: long) = int n"
proof -
  assume "n < 2 ^ 31"
  then have "int n < 2 ^ 31" by simp
  then have "signed_take_bit 31 (int n) = int n"
    by (simp add: signed_take_bit_int_eq_self)
  moreover have "sint (of_nat n :: long) = signed_take_bit 31 (int n)"
    using sint_sbintrunc' [of "int n", where 'a = 32] by simp
  ultimately show ?thesis by simp
qed

lemma itoa_text_of_nat: "n < 2 ^ 31 \<Longrightarrow> itoa_text (of_nat n :: long) = decimal n"
proof (cases "n = 0")
  case True
  then show ?thesis by (simp add: itoa_text_def decimal_small digit_char_0)
next
  case False
  assume n: "n < 2 ^ 31"
  have s: "sint (of_nat n :: long) = int n" using n by (rule sint_of_nat_long)
  then have "(of_nat n :: long) \<noteq> 0" "0 <s (of_nat n :: long)"
    using False by (auto simp: word_sless_alt)
  then show ?thesis by (simp add: itoa_text_def s)
qed

section \<open>The reporter\<close>

lemma putchar_as_puts: "bmt_platform_putchar c w = bmt_platform_puts [c] w"
  by (simp add: platform_defs)

lemma puts_puts: "bmt_platform_puts b (bmt_platform_puts a w) = bmt_platform_puts (a @ b) w"
  by (simp add: platform_defs)

lemma puts_Nil: "bmt_platform_puts [] w = w"
  by (simp add: platform_defs)

lemma puts_fields [simp]:
  "emitted (bmt_platform_puts str w) = emitted w @ str"
  "user (bmt_platform_puts str w) = user w"
  "tick_source (bmt_platform_puts str w) = tick_source w"
  "tick_reads (bmt_platform_puts str w) = tick_reads w"
  "g_bmt_current_test_failed_expect (bmt_platform_puts str w) = g_bmt_current_test_failed_expect w"
  by (simp_all add: platform_defs)

lemmas puts_normal = putchar_as_puts puts_puts puts_test_id_def bmt_platform_io_init_def


lemma strcat_terminated:
  assumes "NUL \<notin> set cur" and "length src \<le> length rest"
  shows "strcat (cur @ NUL # rest) src = Inr ((cur @ src) @ NUL # drop (length src) rest)"
  using assms by (simp add: strcat_def c_str_terminated Let_def)

lemma CR_LF_no_NUL [simp]: "NUL \<notin> set CR_LF" "length CR_LF = 2"
  by (simp_all add: CR_LF_def NUL_def)

text \<open>The indented line of a failure report.\<close>

definition failure_text :: "string \<Rightarrow> string \<Rightarrow> string" where
  "failure_text assertion_type expression = ''  '' @ assertion_type @ ''('' @ expression @ '')'' @ CR_LF"

lemma failure_line_ok:
  assumes "NUL \<notin> set assertion_type" and "NUL \<notin> set expression"
    and "length assertion_type + length expression \<le> 249"
  shows "\<exists>rest. failure_line assertion_type expression =
           Inr (failure_text assertion_type expression @ NUL # rest)"
proof -
  let ?ty = assertion_type and ?ex = expression
  have b1: "strcpy (stack_array 256) ''  '' = Inr (''  '' @ NUL # replicate 253 (CHR 0xAA))"
    by (simp add: strcpy_def stack_array_def)
  have b2: "strcat (''  '' @ NUL # replicate 253 (CHR 0xAA)) ?ty =
      Inr ((''  '' @ ?ty) @ NUL # replicate (253 - length ?ty) (CHR 0xAA))"
    using assms(3) strcat_terminated [of "''  ''" ?ty "replicate 253 (CHR 0xAA)"]
    by (simp add: NUL_def)
  have b3: "strcat ((''  '' @ ?ty) @ NUL # replicate (253 - length ?ty) (CHR 0xAA)) ''('' =
      Inr ((''  '' @ ?ty @ ''('') @ NUL # replicate (252 - length ?ty) (CHR 0xAA))"
    using assms(1,3) strcat_terminated [of "''  '' @ ?ty" "''(''" "replicate (253 - length ?ty) (CHR 0xAA)"]
    by (simp add: NUL_def)
  have n: "nat ((256 - int (length (''  '' @ ?ty @ ''('')) - 2) mod 2 ^ 32) = 251 - length ?ty"
    using assms(3) by simp
  have tk: "take (251 - length ?ty) ?ex = ?ex" using assms(3) by simp
  have nul3: "NUL \<notin> set (''  '' @ ?ty @ ''('')" using assms(1) by (simp add: NUL_def)
  have b4: "strncat ((''  '' @ ?ty @ ''('') @ NUL # replicate (252 - length ?ty) (CHR 0xAA)) ?ex
        (nat ((256 - int (length (c_str ((''  '' @ ?ty @ ''('') @ NUL # replicate (252 - length ?ty) (CHR 0xAA)))) - 2) mod 2 ^ 32)) =
      Inr ((''  '' @ ?ty @ ''('' @ ?ex) @ NUL # replicate (252 - length ?ty - length ?ex) (CHR 0xAA))"
    unfolding c_str_terminated [OF nul3] n strncat_def tk
    using assms(3) nul3 strcat_terminated [of "''  '' @ ?ty @ ''(''" ?ex "replicate (252 - length ?ty) (CHR 0xAA)"]
    by simp
  have nul4: "NUL \<notin> set (''  '' @ ?ty @ ''('' @ ?ex)" using assms(1,2) by (simp add: NUL_def)
  have b5: "strcat ((''  '' @ ?ty @ ''('' @ ?ex) @ NUL # replicate (252 - length ?ty - length ?ex) (CHR 0xAA)) ('')'' @ CR_LF) =
      Inr ((''  '' @ ?ty @ ''('' @ ?ex @ '')'' @ CR_LF) @ NUL # replicate (249 - length ?ty - length ?ex) (CHR 0xAA))"
    using assms(3) nul4 strcat_terminated [of "''  '' @ ?ty @ ''('' @ ?ex" "'')'' @ CR_LF"
        "replicate (252 - length ?ty - length ?ex) (CHR 0xAA)"]
    by simp
  show ?thesis
    unfolding failure_line_def b1 sum.case b2 b3 b4 b5 failure_text_def by simp
qed

lemma failure_text_no_NUL:
  "NUL \<notin> set assertion_type \<Longrightarrow> NUL \<notin> set expression \<Longrightarrow>
   NUL \<notin> set (failure_text assertion_type expression)"
  by (simp add: failure_text_def) (simp add: NUL_def)

lemma scast_line [simp]: "(scast (line :: 32 word) :: long) = line"
  by simp

lemma bmt_report_failure_no_message:
  assumes "NUL \<notin> set assertion_type" and "NUL \<notin> set expression"
    and "length assertion_type + length expression \<le> 249"
  shows "bmt_report_failure file line assertion_type expression None args w =
     Inr (bmt_platform_puts (file @ '':'' @ itoa_text line @ '': Failure'' @ CR_LF @
            failure_text assertion_type expression) w)"
proof -
  from failure_line_ok [OF assms] obtain rest
    where fl: "failure_line assertion_type expression = Inr (failure_text assertion_type expression @ NUL # rest)"
    by blast
  have it: "bmt_itoa line (stack_array 12) 10 = Inr (after_itoa line (stack_array 12))"
    using length_itoa_text_long [of line] by (simp add: bmt_itoa_text after_itoa_def stack_array_def)
  show ?thesis
    by (simp add: bmt_report_failure_def Let_def it fl c_str_after_itoa c_str_terminated
        failure_text_no_NUL assms puts_normal)
qed
subsection \<open>The message\<close>

lemma format_message_literal:
  assumes "p < length msg_fmt" and "msg_fmt ! p \<noteq> NUL" and "msg_fmt ! p \<noteq> CHR ''%''"
  shows "format_message msg_fmt p args w =
           format_message msg_fmt (p + 1) args (bmt_platform_putchar (msg_fmt ! p) w)"
  using assms by (subst format_message.simps) (simp add: peek_def)

lemma format_message_end: "format_message msg_fmt (length msg_fmt) args w = Inr w"
  by (subst format_message.simps) (simp add: peek_def)

lemma format_message_verbatim:
  assumes "p + 1 < length msg_fmt" and "msg_fmt ! p = CHR ''%''" and "msg_fmt ! (p + 1) \<noteq> CHR ''s''"
    and "\<not> (msg_fmt ! (p + 1) = CHR ''l'' \<and> peek msg_fmt (p + 2) = Inr (CHR ''d''))"
  shows "format_message msg_fmt p args w =
           format_message msg_fmt (p + 2) args
             (bmt_platform_putchar (msg_fmt ! (p + 1)) (bmt_platform_putchar (CHR ''%'') w))"
  using assms by (subst format_message.simps) (auto simp: peek_def NUL_def)

lemma format_message_trailing_percent:
  "format_message (pre @ ''%'') (length pre) args w = Inl Out_of_bounds_read"
proof -
  have "format_message (pre @ ''%'') (length pre) args w =
      format_message (pre @ ''%'') (length pre + 2) args
        (bmt_platform_putchar NUL (bmt_platform_putchar (CHR ''%'') w))"
    by (subst format_message.simps) (simp add: peek_def NUL_def)
  also have "\<dots> = Inl Out_of_bounds_read"
    by (subst format_message.simps) (simp add: peek_def)
  finally show ?thesis .
qed

lemma format_message_plain:
  assumes "NUL \<notin> set msg_fmt" and "CHR ''%'' \<notin> set (drop p msg_fmt)" and "p \<le> length msg_fmt"
  shows "format_message msg_fmt p args w = Inr (bmt_platform_puts (drop p msg_fmt) w)"
  using assms
proof (induction "length msg_fmt - p" arbitrary: p w)
  case 0
  then have "p = length msg_fmt" by simp
  then show ?case by (simp add: format_message_end puts_Nil)
next
  case (Suc n)
  then have p: "p < length msg_fmt" by simp
  then have d: "drop p msg_fmt = msg_fmt ! p # drop (Suc p) msg_fmt"
    by (simp add: Cons_nth_drop_Suc)
  have "msg_fmt ! p \<noteq> NUL" using Suc(3) p by (metis nth_mem)
  moreover have "msg_fmt ! p \<noteq> CHR ''%''" using Suc(4) d by auto
  ultimately have "format_message msg_fmt p args w =
      format_message msg_fmt (p + 1) args (bmt_platform_putchar (msg_fmt ! p) w)"
    using p by (simp add: format_message_literal)
  also have "\<dots> = Inr (bmt_platform_puts (drop (p + 1) msg_fmt)
      (bmt_platform_putchar (msg_fmt ! p) w))"
    using Suc(1) [of "p + 1"] Suc(2-5) p d by simp
  finally show ?case by (simp add: d putchar_as_puts puts_puts)
qed

text \<open>
  The line buffer has room when the two strings together are at most 249 characters long.
  One character more and \<open>strcat\<close> writes past its end: the bound given to \<open>strncat\<close>
  leaves two bytes, the closing text and its terminator need four.
\<close>

lemma failure_line_overflow_example:
  "failure_line ''ASSERT_TRUE'' (replicate 239 (CHR ''x'')) = Inl Buffer_overflow"
  by code_simp

text \<open>
  The message of \<open>ASSERT_STRNEQ\<close> and \<open>EXPECT_STRNEQ\<close>: \<open>%u\<close> is not a directive of the loop,
  which prints it as it stands and leaves its argument in place; the \<open>%s\<close> that follows then
  asks \<open>va_arg\<close> for a string pointer where the \<open>unsigned int\<close> is.
\<close>

lemma format_message_STRNEQ:
  \<open>format_message ''Expected first %u chars: "%s", Actual: "%s"'' 0 (Other_arg # args) w =
     Inl Bad_va_arg\<close>
  by (simp add: format_message.simps peek_def NUL_def)

lemma bmt_report_failure_STRNEQ:
  assumes "NUL \<notin> set assertion_type" and "NUL \<notin> set expression"
    and "length assertion_type + length expression \<le> 249"
  shows \<open>bmt_report_failure file line assertion_type expression
     (Some ''Expected first %u chars: "%s", Actual: "%s"'') (Other_arg # args) w = Inl Bad_va_arg\<close>
proof -
  from failure_line_ok [OF assms] obtain rest
    where fl: "failure_line assertion_type expression =
      Inr (failure_text assertion_type expression @ NUL # rest)"
    by blast
  have it: "bmt_itoa line (stack_array 12) 10 = Inr (after_itoa line (stack_array 12))"
    using length_itoa_text_long [of line] by (simp add: bmt_itoa_text after_itoa_def stack_array_def)
  show ?thesis
    by (simp add: bmt_report_failure_def Let_def it fl format_message_STRNEQ)
qed

lemma bmt_report_failure_long_expression:
  "bmt_report_failure file line ''ASSERT_TRUE'' (replicate 239 (CHR ''x'')) msg_fmt args w =
     Inl Buffer_overflow"
proof -
  have it: "bmt_itoa line (stack_array 12) 10 = Inr (after_itoa line (stack_array 12))"
    using length_itoa_text_long [of line] by (simp add: bmt_itoa_text after_itoa_def stack_array_def)
  show ?thesis
    by (simp add: bmt_report_failure_def Let_def it failure_line_overflow_example)
qed


section \<open>The registry\<close>

text \<open>
  A body is free of faults when no memory makes it run into undefined behaviour; a registry
  is runnable when each registered function pointer is set, to such a body.
\<close>

definition fault_free :: "'u test_body \<Rightarrow> bool" where
  "fault_free f \<longleftrightarrow> (\<forall>w e. f w \<noteq> Fault e)"

definition runnable :: "'u bmt_state \<Rightarrow> bool" where
  "runnable s \<longleftrightarrow>
     (\<forall>j<g_bmt_test_count s. \<exists>f. func (g_bmt_test_cases s ! j) = Some f \<and> fault_free f)"

definition registry_ok :: "'u bmt_state \<Rightarrow> bool" where
  "registry_ok s \<longleftrightarrow>
     length (g_bmt_test_cases s) = BMT_MAX_TEST_CASES \<and> g_bmt_test_count s \<le> BMT_MAX_TEST_CASES"


lemma register_count_le:
  "g_bmt_test_count s \<le> BMT_MAX_TEST_CASES \<Longrightarrow>
   g_bmt_test_count (bmt_register_test sn tn f s) \<le> BMT_MAX_TEST_CASES"
  by (simp add: bmt_register_test_def)

lemma register_all_count_le:
  "g_bmt_test_count s \<le> BMT_MAX_TEST_CASES \<Longrightarrow>
   g_bmt_test_count (register_all tests s) \<le> BMT_MAX_TEST_CASES"
  by (induction tests s rule: register_all.induct) (simp_all add: register_count_le)

text \<open>The descriptor that a registration with room left writes.\<close>

definition registered_entry :: "string \<times> string \<times> 'u test_body \<Rightarrow> 'u bmt_test_case_t" where
  "registered_entry t =
     \<lparr>suite_name = take (BMT_MAX_SUITE_NAME_LEN - 1) (fst t),
      test_name = take (BMT_MAX_TEST_NAME_LEN - 1) (fst (snd t)),
      func = Some (snd (snd t)),
      last_run_passed = False,
      duration_ms = 0\<rparr>"

lemma registry_ok_program_start: "registry_ok (program_start ticks u)"
  by (simp add: registry_ok_def program_start_def)

lemma bmt_register_test_room:
  assumes "g_bmt_test_count s < BMT_MAX_TEST_CASES"
  shows "g_bmt_test_count (bmt_register_test sn tn (Some f) s) = Suc (g_bmt_test_count s)"
    and "g_bmt_test_cases (bmt_register_test sn tn (Some f) s) =
           (g_bmt_test_cases s)[g_bmt_test_count s := registered_entry (sn, tn, f)]"
    and "world (bmt_register_test sn tn (Some f) s) = world s"
  using assms by (simp_all add: bmt_register_test_def registered_entry_def)

lemma register_all_room:
  "registry_ok s \<Longrightarrow> g_bmt_test_count s + length tests \<le> BMT_MAX_TEST_CASES \<Longrightarrow>
   registry_ok (register_all tests s) \<and>
   g_bmt_test_count (register_all tests s) = g_bmt_test_count s + length tests \<and>
   world (register_all tests s) = world s \<and>
   (\<forall>j<g_bmt_test_count s. g_bmt_test_cases (register_all tests s) ! j = g_bmt_test_cases s ! j) \<and>
   (\<forall>k<length tests. g_bmt_test_cases (register_all tests s) ! (g_bmt_test_count s + k) =
        registered_entry (tests ! k))"
proof (induction tests s rule: register_all.induct)
  case (1 s)
  then show ?case by simp
next
  case (2 suite name body tests s)
  let ?s1 = "bmt_register_test suite name (Some body) s"
  have room: "g_bmt_test_count s < BMT_MAX_TEST_CASES" using 2(3) by simp
  note r = bmt_register_test_room [OF room, of suite name body]
  have ok1: "registry_ok ?s1" using 2(2) room by (simp add: registry_ok_def r)
  have fits: "g_bmt_test_count ?s1 + length tests \<le> BMT_MAX_TEST_CASES" using 2(3) by (simp add: r)
  note ih = 2(1) [OF ok1 fits]
  have len: "g_bmt_test_count s < length (g_bmt_test_cases s)"
    using 2(2) room by (simp add: registry_ok_def)
  have old: "\<forall>j<g_bmt_test_count s. g_bmt_test_cases (register_all tests ?s1) ! j = g_bmt_test_cases s ! j"
    using ih by (simp add: r)
  have new: "\<forall>k<length ((suite, name, body) # tests).
      g_bmt_test_cases (register_all tests ?s1) ! (g_bmt_test_count s + k) =
        registered_entry (((suite, name, body) # tests) ! k)"
  proof (intro allI impI)
    fix k assume k: "k < length ((suite, name, body) # tests)"
    show "g_bmt_test_cases (register_all tests ?s1) ! (g_bmt_test_count s + k) =
        registered_entry (((suite, name, body) # tests) ! k)"
    proof (cases k)
      case 0
      have "g_bmt_test_cases (register_all tests ?s1) ! g_bmt_test_count s = g_bmt_test_cases ?s1 ! g_bmt_test_count s"
        using ih by (simp add: r)
      then show ?thesis using 0 len by (simp add: r)
    next
      case (Suc k')
      then have "k' < length tests" using k by simp
      then have "g_bmt_test_cases (register_all tests ?s1) ! (g_bmt_test_count ?s1 + k') = registered_entry (tests ! k')"
        using ih by blast
      then show ?thesis using Suc by (simp add: r)
    qed
  qed
  show ?case using ih old new by (simp add: r)
qed

lemma register_all_program_start:
  assumes "length tests \<le> BMT_MAX_TEST_CASES"
  shows "registry_ok (register_all tests (program_start ticks u))"
    and "g_bmt_test_count (register_all tests (program_start ticks u)) = length tests"
    and "world (register_all tests (program_start ticks u)) = world (program_start ticks u)"
    and "k < length tests \<Longrightarrow>
         g_bmt_test_cases (register_all tests (program_start ticks u)) ! k = registered_entry (tests ! k)"
proof -
  have c0: "g_bmt_test_count (program_start ticks u) = 0" by (simp add: program_start_def)
  note r = register_all_room [OF registry_ok_program_start, of ticks u tests]
  show "registry_ok (register_all tests (program_start ticks u))"
    and "g_bmt_test_count (register_all tests (program_start ticks u)) = length tests"
    and "world (register_all tests (program_start ticks u)) = world (program_start ticks u)"
    using r assms by (simp_all add: c0)
  show "g_bmt_test_cases (register_all tests (program_start ticks u)) ! k = registered_entry (tests ! k)"
    if "k < length tests"
    using r assms that by (simp add: c0)
qed

lemma take_registered:
  assumes "length tests \<le> BMT_MAX_TEST_CASES"
  shows "take (length tests) (g_bmt_test_cases (register_all tests (program_start ticks u))) =
         map registered_entry tests"
proof (rule nth_equalityI)
  have "length (g_bmt_test_cases (register_all tests (program_start ticks u))) = BMT_MAX_TEST_CASES"
    using register_all_program_start(1) [OF assms] by (simp add: registry_ok_def)
  then show len: "length (take (length tests) (g_bmt_test_cases (register_all tests (program_start ticks u)))) =
      length (map registered_entry tests)"
    using assms by simp
  fix k assume "k < length (take (length tests) (g_bmt_test_cases (register_all tests (program_start ticks u))))"
  then have "k < length tests" using len by simp
  then show "take (length tests) (g_bmt_test_cases (register_all tests (program_start ticks u))) ! k =
      map registered_entry tests ! k"
    using register_all_program_start(4) [OF assms] by simp
qed

lemma runnable_registered:
  assumes "length tests \<le> BMT_MAX_TEST_CASES" and "\<forall>t \<in> set tests. fault_free (snd (snd t))"
  shows "runnable (register_all tests (program_start ticks u))"
  unfolding runnable_def
proof (intro allI impI)
  fix j assume "j < g_bmt_test_count (register_all tests (program_start ticks u))"
  then have j: "j < length tests" using register_all_program_start(2) [OF assms(1)] by simp
  then have "func (g_bmt_test_cases (register_all tests (program_start ticks u)) ! j) = Some (snd (snd (tests ! j)))"
    using register_all_program_start(4) [OF assms(1)] by (simp add: registered_entry_def)
  moreover have "fault_free (snd (snd (tests ! j)))" using assms(2) j by simp
  ultimately show "\<exists>f. func (g_bmt_test_cases (register_all tests (program_start ticks u)) ! j) = Some f \<and> fault_free f"
    by blast
qed


section \<open>The macros\<close>

lemma seq_stmt_simps:
  "a w = Normal w' \<Longrightarrow> seq_stmt a b w = b w'"
  "a w = Longjmp w' \<Longrightarrow> seq_stmt a b w = Longjmp w'"
  "a w = Fault e \<Longrightarrow> seq_stmt a b w = Fault e"
  by (simp_all add: seq_stmt_def)

lemma fault_free_seq_stmt: "fault_free a \<Longrightarrow> fault_free b \<Longrightarrow> fault_free (seq_stmt a b)"
  by (auto simp: fault_free_def seq_stmt_def split: exit.splits)

lemma FAIL_jumps:
  "FAIL file line w =
     Longjmp (bmt_platform_puts (file @ '':'' @ itoa_text line @ '': Failure'' @ CR_LF @
       failure_text ''FAIL'' ''Explicit failure triggered by FAIL()'') w)"
  by (simp add: FAIL_def BMT_ASSERT_COMMON_def bmt_terminate_current_test_def
      bmt_report_failure_no_message NUL_def)

lemma ADD_FAILURE_returns:
  "ADD_FAILURE file line w =
     Normal (bmt_platform_puts (file @ '':'' @ itoa_text line @ '': Failure'' @ CR_LF @
       failure_text ''ADD_FAILURE'' ''Explicit failure triggered by ADD_FAILURE()'') w)"
  by (simp add: ADD_FAILURE_def bmt_report_failure_no_message NUL_def)

lemma EXPECT_TRUE_fails:
  assumes "NUL \<notin> set condition_text" and "length condition_text \<le> 238"
  shows "EXPECT_TRUE False condition_text file line w =
     Normal ((bmt_platform_puts (file @ '':'' @ itoa_text line @ '': Failure'' @ CR_LF @
       failure_text ''EXPECT_TRUE'' condition_text) w)\<lparr>g_bmt_current_test_failed_expect := True\<rparr>)"
  using assms
  by (simp add: EXPECT_TRUE_def BMT_EXPECT_COMMON_def bmt_report_failure_no_message NUL_def)

lemma fault_free_FAIL: "fault_free (FAIL file line)"
  by (simp add: fault_free_def FAIL_jumps)

lemma fault_free_ADD_FAILURE: "fault_free (ADD_FAILURE file line)"
  by (simp add: fault_free_def ADD_FAILURE_returns)

lemma fault_free_EXPECT_TRUE:
  assumes "NUL \<notin> set condition_text" and "length condition_text \<le> 238"
  shows "fault_free (EXPECT_TRUE condition condition_text file line)"
proof (cases condition)
  case True
  then show ?thesis by (simp add: fault_free_def EXPECT_TRUE_def BMT_EXPECT_COMMON_def)
next
  case False
  then show ?thesis using assms by (simp add: fault_free_def EXPECT_TRUE_fails)
qed

text \<open>Checks that fail and whose report does not complete.\<close>

lemma strncmp_example: "strncmp ''abc'' ''abd'' 3 = - 1"
  by (simp add: numeral_3_eq_3)

lemma ASSERT_STRNEQ_faults:
  "ASSERT_STRNEQ (Some ''abc'') ''a'' (Some ''abd'') ''b'' 3 ''3'' ''example.c'' 40 w =
     Fault Bad_va_arg"
  by (simp add: ASSERT_STRNEQ_def BMT_ASSERT_COMMON_def bmt_report_failure_STRNEQ NUL_def
      strncmp_example)

lemma EXPECT_STRNEQ_faults:
  "EXPECT_STRNEQ (Some ''abc'') ''a'' (Some ''abd'') ''b'' 3 ''3'' ''example.c'' 50 w =
     Fault Bad_va_arg"
  by (simp add: EXPECT_STRNEQ_def BMT_EXPECT_COMMON_def bmt_report_failure_STRNEQ NUL_def
      strncmp_example)

lemma ASSERT_TRUE_long_expression_faults:
  "ASSERT_TRUE False (replicate 239 (CHR ''x'')) file line w = Fault Buffer_overflow"
  by (simp add: ASSERT_TRUE_def BMT_ASSERT_COMMON_def bmt_report_failure_long_expression)

section \<open>The runner\<close>

subsection \<open>The duration of a test\<close>

lemma elapsed_ticks_forward:
  "start_ticks \<le> end_ticks \<Longrightarrow>
   unat (elapsed_ticks start_ticks end_ticks) = unat end_ticks - unat start_ticks"
  by (simp add: elapsed_ticks_def unat_sub)

lemma elapsed_ticks_wrapped:
  assumes "end_ticks < start_ticks"
  shows "unat (elapsed_ticks start_ticks end_ticks) = (0xFFFFFFFF - unat start_ticks) + unat end_ticks + 1"
proof -
  have "elapsed_ticks start_ticks end_ticks = end_ticks - start_ticks"
    using assms by (simp add: elapsed_ticks_def)
  moreover have lt: "unat end_ticks < unat start_ticks"
    using assms by (simp add: word_less_nat_alt)
  moreover have "unat (end_ticks - start_ticks) = unat end_ticks + 2 ^ 32 - unat start_ticks"
    using lt by (simp add: unat_sub_if')
  moreover have "unat start_ticks < 2 ^ 32"
    using unsigned_less [of start_ticks] by simp
  ultimately show ?thesis by simp
qed

lemma elapsed_ticks_example: "elapsed_ticks 0xFFFFFFF0 5 = 21"
  by (simp add: elapsed_ticks_def)


subsection \<open>One iteration\<close>

lemma start_test_simps [simp]:
  "fst (start_test i s) = tick_source (world s) (tick_reads (world s))"
  "g_bmt_current_test_failed_expect (snd (start_test i s)) = False"
  "user (snd (start_test i s)) = user (world s)"
  "tick_source (snd (start_test i s)) = tick_source (world s)"
  "tick_reads (snd (start_test i s)) = tick_reads (world s) + 1"
  "emitted (snd (start_test i s)) =
     emitted (world s) @ ''[ RUN      ] '' @ suite_name (g_bmt_test_cases s ! i) @ ''.'' @
     test_name (g_bmt_test_cases s ! i) @ CR_LF"
  by (simp_all add: start_test_def Let_def platform_defs)

lemma run_test_returns:
  "func (g_bmt_test_cases s ! i) = Some f \<Longrightarrow> f (snd (start_test i s)) = Normal w \<Longrightarrow>
   run_test i l s = finish_test i (tick_source (world s) (tick_reads (world s))) True l s w"
  by (simp add: run_test_def case_prod_beta)

lemma run_test_jumps:
  "func (g_bmt_test_cases s ! i) = Some f \<Longrightarrow> f (snd (start_test i s)) = Longjmp w \<Longrightarrow>
   run_test i l s = finish_test i (tick_source (world s) (tick_reads (world s))) False l s w"
  by (simp add: run_test_def case_prod_beta)

lemma run_test_faults:
  "func (g_bmt_test_cases s ! i) = Some f \<Longrightarrow> f (snd (start_test i s)) = Fault e \<Longrightarrow>
   run_test i l s = Inl e"
  by (simp add: run_test_def case_prod_beta)

lemma run_test_cases:
  assumes "run_test i l s = Inr (l', s')"
  obtains f w pa where "func (g_bmt_test_cases s ! i) = Some f"
    and "f (snd (start_test i s)) = (if pa then Normal w else Longjmp w)"
    and "finish_test i (tick_source (world s) (tick_reads (world s))) pa l s w = Inr (l', s')"
proof (cases "func (g_bmt_test_cases s ! i)")
  case None
  with assms show ?thesis by (simp add: run_test_def case_prod_beta)
next
  case (Some f)
  show ?thesis
  proof (cases "f (snd (start_test i s))")
    case (Normal w)
    with Some assms that [of f True w] show ?thesis by (simp add: run_test_returns)
  next
    case (Longjmp w)
    with Some assms that [of f False w] show ?thesis by (simp add: run_test_jumps)
  next
    case (Fault e)
    with Some assms show ?thesis by (simp add: run_test_faults)
  qed
qed

lemma finish_test_Inr:
  assumes "finish_test i start_ticks pa l s w = Inr (l', s')"
  shows "g_bmt_test_cases s' = (g_bmt_test_cases s)[i := (g_bmt_test_cases s ! i)
        \<lparr>duration_ms := fst (test_result start_ticks pa w), last_run_passed := snd (test_result start_ticks pa w)\<rparr>]"
    and "g_bmt_test_count s' = g_bmt_test_count s"
    and "total_duration_ms l' = total_duration_ms l + fst (test_result start_ticks pa w)"
    and "tests_passed l' = tests_passed l + (if snd (test_result start_ticks pa w) then 1 else 0)"
    and "tests_failed l' = tests_failed l + (if snd (test_result start_ticks pa w) then 0 else 1)"
    and "user (world s') = user w"
    and "g_bmt_current_test_failed_expect (world s') = g_bmt_current_test_failed_expect w"
    and "tick_source (world s') = tick_source w"
    and "tick_reads (world s') = tick_reads w + 1"
  using assms
  by (auto simp: finish_test_def Let_def puts_long_def test_result_def platform_defs split: sum.splits)

lemma finish_test_total:
  assumes "12 \<le> length (buffer l)"
  shows "\<exists>l' s'. finish_test i start_ticks pa l s w = Inr (l', s') \<and> length (buffer l') = length (buffer l)"
  using assms
  by (simp add: finish_test_def Let_def bmt_platform_get_msec_ticks_def puts_long_ok length_after_itoa_long)

subsection \<open>The loop\<close>

lemma run_loop_step:
  "i < g_bmt_test_count s \<Longrightarrow> run_test i l s = Inr (l1, s1) \<Longrightarrow>
   run_loop i l s = run_loop (Suc i) l1 s1"
  by (subst run_loop.simps) simp

lemma run_loop_done: "\<not> i < g_bmt_test_count s \<Longrightarrow> run_loop i l s = Inr (l, s)"
  by (subst run_loop.simps) simp

lemma run_loop_fault:
  "i < g_bmt_test_count s \<Longrightarrow> run_test i l s = Inl e \<Longrightarrow> run_loop i l s = Inl e"
  by (subst run_loop.simps) simp

text \<open>What one iteration leaves in the registry and in the counters.\<close>

lemma run_test_Inr:
  assumes "run_test i l s = Inr (l', s')"
  shows "\<exists>tc. g_bmt_test_cases s' = (g_bmt_test_cases s)[i := tc] \<and>
           suite_name tc = suite_name (g_bmt_test_cases s ! i) \<and>
           test_name tc = test_name (g_bmt_test_cases s ! i) \<and>
           func tc = func (g_bmt_test_cases s ! i) \<and>
           tests_passed l' = tests_passed l + (if last_run_passed tc then 1 else 0) \<and>
           tests_failed l' = tests_failed l + (if last_run_passed tc then 0 else 1) \<and>
           total_duration_ms l' = total_duration_ms l + duration_ms tc"
    and "g_bmt_test_count s' = g_bmt_test_count s"
proof -
  from assms obtain f w pa
    where fin: "finish_test i (tick_source (world s) (tick_reads (world s))) pa l s w = Inr (l', s')"
    by (rule run_test_cases)
  note facts = finish_test_Inr [OF fin]
  let ?tc = "(g_bmt_test_cases s ! i)\<lparr>duration_ms := fst (test_result (tick_source (world s) (tick_reads (world s))) pa w),
      last_run_passed := snd (test_result (tick_source (world s) (tick_reads (world s))) pa w)\<rparr>"
  show "\<exists>tc. g_bmt_test_cases s' = (g_bmt_test_cases s)[i := tc] \<and>
           suite_name tc = suite_name (g_bmt_test_cases s ! i) \<and>
           test_name tc = test_name (g_bmt_test_cases s ! i) \<and>
           func tc = func (g_bmt_test_cases s ! i) \<and>
           tests_passed l' = tests_passed l + (if last_run_passed tc then 1 else 0) \<and>
           tests_failed l' = tests_failed l + (if last_run_passed tc then 0 else 1) \<and>
           total_duration_ms l' = total_duration_ms l + duration_ms tc"
    by (rule exI [of _ ?tc]) (simp add: facts)
  show "g_bmt_test_count s' = g_bmt_test_count s" by (rule facts(2))
qed

text \<open>The indices, from \<open>i\<close> on, of the registered tests that failed, and of those that passed.\<close>

definition failed_indices :: "nat \<Rightarrow> 'u bmt_state \<Rightarrow> nat list" where
  "failed_indices i s =
     filter (\<lambda>j. \<not> last_run_passed (g_bmt_test_cases s ! j)) [i..<g_bmt_test_count s]"

definition passed_indices :: "nat \<Rightarrow> 'u bmt_state \<Rightarrow> nat list" where
  "passed_indices i s =
     filter (\<lambda>j. last_run_passed (g_bmt_test_cases s ! j)) [i..<g_bmt_test_count s]"

lemma run_loop_Inr:
  "run_loop i l s = Inr (l', s') \<Longrightarrow> g_bmt_test_count s \<le> length (g_bmt_test_cases s) \<Longrightarrow>
   g_bmt_test_count s' = g_bmt_test_count s \<and>
   length (g_bmt_test_cases s') = length (g_bmt_test_cases s) \<and>
   (\<forall>j<i. g_bmt_test_cases s' ! j = g_bmt_test_cases s ! j) \<and>
   (\<forall>j. suite_name (g_bmt_test_cases s' ! j) = suite_name (g_bmt_test_cases s ! j) \<and>
        test_name (g_bmt_test_cases s' ! j) = test_name (g_bmt_test_cases s ! j) \<and>
        func (g_bmt_test_cases s' ! j) = func (g_bmt_test_cases s ! j)) \<and>
   tests_failed l' = tests_failed l + int (length (failed_indices i s')) \<and>
   tests_passed l' = tests_passed l + int (length (passed_indices i s'))"
proof (induction i l s rule: run_loop.induct)
  case (1 i l s)
  show ?case
  proof (cases "i < g_bmt_test_count s")
    case False
    with 1(2) have "l' = l" "s' = s" by (simp_all add: run_loop_done)
    with False show ?thesis by (simp add: failed_indices_def passed_indices_def)
  next
    case True
    with 1(2) obtain l1 s1 where rt: "run_test i l s = Inr (l1, s1)"
      and rest: "run_loop (Suc i) l1 s1 = Inr (l', s')"
      by (subst (asm) run_loop.simps) (auto split: sum.splits)
    from run_test_Inr [OF rt] obtain tc where
      tc: "g_bmt_test_cases s1 = (g_bmt_test_cases s)[i := tc]"
        "suite_name tc = suite_name (g_bmt_test_cases s ! i)"
        "test_name tc = test_name (g_bmt_test_cases s ! i)"
        "func tc = func (g_bmt_test_cases s ! i)"
        "tests_passed l1 = tests_passed l + (if last_run_passed tc then 1 else 0)"
        "tests_failed l1 = tests_failed l + (if last_run_passed tc then 0 else 1)"
      and cnt: "g_bmt_test_count s1 = g_bmt_test_count s"
      by blast
    have inv1: "g_bmt_test_count s1 \<le> length (g_bmt_test_cases s1)"
      using 1(3) tc(1) cnt by simp
    have ih: "g_bmt_test_count s' = g_bmt_test_count s1"
      "length (g_bmt_test_cases s') = length (g_bmt_test_cases s1)"
      "\<forall>j<Suc i. g_bmt_test_cases s' ! j = g_bmt_test_cases s1 ! j"
      "\<forall>j. suite_name (g_bmt_test_cases s' ! j) = suite_name (g_bmt_test_cases s1 ! j) \<and>
        test_name (g_bmt_test_cases s' ! j) = test_name (g_bmt_test_cases s1 ! j) \<and>
        func (g_bmt_test_cases s' ! j) = func (g_bmt_test_cases s1 ! j)"
      "tests_failed l' = tests_failed l1 + int (length (failed_indices (Suc i) s'))"
      "tests_passed l' = tests_passed l1 + int (length (passed_indices (Suc i) s'))"
      using 1(1) [OF True rt refl] rest inv1 by simp_all
    have i_len: "i < length (g_bmt_test_cases s)" using True 1(3) by simp
    have at_i: "g_bmt_test_cases s' ! i = tc" using ih(3) tc(1) i_len by simp
    have below: "\<forall>j<i. g_bmt_test_cases s' ! j = g_bmt_test_cases s ! j"
      using ih(3) tc(1) by simp
    have names: "\<forall>j. suite_name (g_bmt_test_cases s' ! j) = suite_name (g_bmt_test_cases s ! j) \<and>
        test_name (g_bmt_test_cases s' ! j) = test_name (g_bmt_test_cases s ! j) \<and>
        func (g_bmt_test_cases s' ! j) = func (g_bmt_test_cases s ! j)"
    proof
      fix j
      show "suite_name (g_bmt_test_cases s' ! j) = suite_name (g_bmt_test_cases s ! j) \<and>
        test_name (g_bmt_test_cases s' ! j) = test_name (g_bmt_test_cases s ! j) \<and>
        func (g_bmt_test_cases s' ! j) = func (g_bmt_test_cases s ! j)"
        using ih(4) tc(1-4) i_len by (cases "j = i") simp_all
    qed
    have upt: "[i..<g_bmt_test_count s'] = i # [Suc i..<g_bmt_test_count s']"
      using True ih(1) cnt by (simp add: upt_conv_Cons)
    have failed: "length (failed_indices i s') =
        (if last_run_passed tc then 0 else 1) + length (failed_indices (Suc i) s')"
      by (simp add: failed_indices_def upt at_i)
    have passed: "length (passed_indices i s') =
        (if last_run_passed tc then 1 else 0) + length (passed_indices (Suc i) s')"
      by (simp add: passed_indices_def upt at_i)
    show ?thesis
      using ih(1,2,5,6) cnt tc(1,5,6) below names failed passed by simp
  qed
qed

lemma run_test_total:
  assumes "12 \<le> length (buffer l)" and "func (g_bmt_test_cases s ! i) = Some f" and "fault_free f"
  shows "\<exists>l' s'. run_test i l s = Inr (l', s') \<and> length (buffer l') = length (buffer l)"
proof (cases "f (snd (start_test i s))")
  case (Normal w)
  show ?thesis
    using finish_test_total [OF assms(1)] by (simp add: run_test_returns [OF assms(2) Normal])
next
  case (Longjmp w)
  show ?thesis
    using finish_test_total [OF assms(1)] by (simp add: run_test_jumps [OF assms(2) Longjmp])
next
  case (Fault e)
  then show ?thesis using assms(3) by (simp add: fault_free_def)
qed

lemma run_test_buffer:
  assumes "run_test i l s = Inr (l', s')" and "12 \<le> length (buffer l)"
  shows "length (buffer l') = length (buffer l)"
proof -
  from assms(1) obtain f w pa
    where fin: "finish_test i (tick_source (world s) (tick_reads (world s))) pa l s w = Inr (l', s')"
    by (rule run_test_cases)
  with finish_test_total [OF assms(2), of i "tick_source (world s) (tick_reads (world s))" pa s w]
  show ?thesis by auto
qed

lemma run_loop_buffer:
  "run_loop i l s = Inr (l', s') \<Longrightarrow> 12 \<le> length (buffer l) \<Longrightarrow>
   length (buffer l') = length (buffer l)"
proof (induction i l s rule: run_loop.induct)
  case (1 i l s)
  show ?case
  proof (cases "i < g_bmt_test_count s")
    case False
    with 1(2) show ?thesis by (simp add: run_loop_done)
  next
    case True
    with 1(2) obtain l1 s1 where rt: "run_test i l s = Inr (l1, s1)"
      and rest: "run_loop (Suc i) l1 s1 = Inr (l', s')"
      by (subst (asm) run_loop.simps) (auto split: sum.splits)
    have "length (buffer l1) = length (buffer l)" using rt 1(3) by (rule run_test_buffer)
    with 1(1) [OF True rt refl] rest 1(3) show ?thesis by simp
  qed
qed

lemma run_loop_total:
  "12 \<le> length (buffer l) \<Longrightarrow> runnable s \<Longrightarrow> \<exists>l' s'. run_loop i l s = Inr (l', s')"
proof (induction i l s rule: run_loop.induct)
  case (1 i l s)
  show ?case
  proof (cases "i < g_bmt_test_count s")
    case False
    then show ?thesis by (simp add: run_loop_done)
  next
    case True
    then obtain f where f: "func (g_bmt_test_cases s ! i) = Some f" "fault_free f"
      using 1(3) by (auto simp: runnable_def)
    from run_test_total [OF 1(2) f] obtain l1 s1
      where rt: "run_test i l s = Inr (l1, s1)" and len: "length (buffer l1) = length (buffer l)"
      by blast
    from run_test_Inr [OF rt] obtain tc where
      tc: "g_bmt_test_cases s1 = (g_bmt_test_cases s)[i := tc]"
        "func tc = func (g_bmt_test_cases s ! i)"
      and cnt: "g_bmt_test_count s1 = g_bmt_test_count s"
      by blast
    have "func (g_bmt_test_cases s1 ! j) = func (g_bmt_test_cases s ! j)" for j
      using tc by (cases "j = i"; cases "i < length (g_bmt_test_cases s)")
        (simp_all add: list_update_beyond not_less)
    then have "runnable s1" using 1(3) cnt by (simp add: runnable_def)
    with 1(1) [OF True rt refl] 1(2) len have "\<exists>l' s'. run_loop (Suc i) l1 s1 = Inr (l', s')"
      by simp
    then show ?thesis using True rt by (simp add: run_loop_step)
  qed
qed

text \<open>One line of the list of failing tests.\<close>

definition failed_line :: "'u bmt_test_case_t \<Rightarrow> string" where
  "failed_line tc = ''[  FAILED  ] '' @ suite_name tc @ ''.'' @ test_name tc @ CR_LF"

lemma list_failed_tests_eq:
  "list_failed_tests i s =
     s\<lparr>world := bmt_platform_puts
        (concat (map (\<lambda>j. failed_line (g_bmt_test_cases s ! j)) (failed_indices i s))) (world s)\<rparr>"
proof (induction i s rule: list_failed_tests.induct)
  case (1 i s)
  show ?case
  proof (cases "i < g_bmt_test_count s")
    case False
    then show ?thesis
      by (subst list_failed_tests.simps) (simp add: failed_indices_def bmt_platform_puts_def)
  next
    case True
    then have upt: "[i..<g_bmt_test_count s] = i # [Suc i..<g_bmt_test_count s]"
      by (simp add: upt_conv_Cons)
    show ?thesis
      using True 1 [OF True]
      by (subst list_failed_tests.simps)
         (simp add: failed_indices_def upt failed_line_def platform_defs)
  qed
qed

subsection \<open>The header and the summary\<close>

lemma run_header_ok:
  "\<exists>l0. run_header s =
     Inr (l0, s\<lparr>world := bmt_platform_puts (''[==========] Running '' @
       itoa_text (of_nat (g_bmt_test_count s) :: long) @ '' tests.'' @ CR_LF) (world s)\<rparr>) \<and>
     length (buffer l0) = 128 \<and> tests_passed l0 = 0 \<and> tests_failed l0 = 0 \<and>
     total_duration_ms l0 = 0"
  by (simp add: run_header_def Let_def puts_long_ok stack_array_def length_after_itoa_long puts_normal)

lemma summary_totals_ok:
  assumes "12 \<le> length (buffer l)"
  shows "\<exists>l'. summary_totals l s =
     Inr (l', s\<lparr>world := bmt_platform_puts (''[==========] '' @
       itoa_text (of_nat (g_bmt_test_count s) :: long) @ '' tests ran. ('' @
       itoa_text (ucast (total_duration_ms l) :: long) @ '' ms total)'' @ CR_LF @
       ''[  PASSED  ] '' @ itoa_text (word_of_int (tests_passed l) :: long) @ '' tests.'' @ CR_LF)
       (world s)\<rparr>) \<and>
     length (buffer l') = length (buffer l) \<and> tests_passed l' = tests_passed l \<and>
     tests_failed l' = tests_failed l \<and> total_duration_ms l' = total_duration_ms l"
  using assms
  by (simp add: summary_totals_def puts_long_ok length_after_itoa_long puts_normal)

lemma summary_failures_ok:
  assumes "12 \<le> length (buffer l)"
  shows "\<exists>l'. summary_failures l s =
     Inr (l', s\<lparr>world := bmt_platform_puts
       (if 0 < tests_failed l
        then ''[  FAILED  ] '' @ itoa_text (word_of_int (tests_failed l) :: long) @
             '' tests, listed below:'' @ CR_LF @
             concat (map (\<lambda>j. failed_line (g_bmt_test_cases s ! j)) (failed_indices 0 s))
        else []) (world s)\<rparr>) \<and>
     length (buffer l') = length (buffer l) \<and> tests_failed l' = tests_failed l"
  using assms
  by (simp add: summary_failures_def puts_long_ok length_after_itoa_long list_failed_tests_eq
        puts_normal puts_Nil failed_indices_def)

lemma summary_verdict_ok:
  assumes "12 \<le> length (buffer l)"
  shows "summary_verdict l s = Inr (tests_failed l, s\<lparr>world := bmt_platform_puts
       (CR_LF @ itoa_text (word_of_int (tests_failed l) :: long) @
       (if tests_failed l = 1 then '' FAILED TEST'' else '' FAILED TESTS'') @ CR_LF) (world s)\<rparr>)"
  using assms
  by (simp add: summary_verdict_def puts_long_ok puts_normal)

text \<open>Everything that lines 266 to 301 print.\<close>

definition summary_text :: "run_locals \<Rightarrow> 'u bmt_state \<Rightarrow> string" where
  "summary_text l s =
     ''[==========] '' @ itoa_text (of_nat (g_bmt_test_count s) :: long) @ '' tests ran. ('' @
     itoa_text (ucast (total_duration_ms l) :: long) @ '' ms total)'' @ CR_LF @
     ''[  PASSED  ] '' @ itoa_text (word_of_int (tests_passed l) :: long) @ '' tests.'' @ CR_LF @
     (if 0 < tests_failed l
      then ''[  FAILED  ] '' @ itoa_text (word_of_int (tests_failed l) :: long) @
           '' tests, listed below:'' @ CR_LF @
           concat (map (\<lambda>j. failed_line (g_bmt_test_cases s ! j)) (failed_indices 0 s))
      else []) @
     CR_LF @ itoa_text (word_of_int (tests_failed l) :: long) @
     (if tests_failed l = 1 then '' FAILED TEST'' else '' FAILED TESTS'') @ CR_LF"

lemma failed_indices_world [simp]: "failed_indices i (s\<lparr>world := w\<rparr>) = failed_indices i s"
  by (simp add: failed_indices_def)

lemma summary_ok:
  assumes "12 \<le> length (buffer l)"
  shows "(case summary_totals l s of
            Inl e \<Rightarrow> Inl e
          | Inr (l2, s2) \<Rightarrow>
              (case summary_failures l2 s2 of
                 Inl e \<Rightarrow> Inl e
               | Inr (l3, s3) \<Rightarrow> summary_verdict l3 s3)) =
         Inr (tests_failed l, s\<lparr>world := bmt_platform_puts (summary_text l s) (world s)\<rparr>)"
proof -
  from summary_totals_ok [OF assms, of s] obtain l2 where
    t: "summary_totals l s =
     Inr (l2, s\<lparr>world := bmt_platform_puts (''[==========] '' @
       itoa_text (of_nat (g_bmt_test_count s) :: long) @ '' tests ran. ('' @
       itoa_text (ucast (total_duration_ms l) :: long) @ '' ms total)'' @ CR_LF @
       ''[  PASSED  ] '' @ itoa_text (word_of_int (tests_passed l) :: long) @ '' tests.'' @ CR_LF)
       (world s)\<rparr>)"
    and l2: "length (buffer l2) = length (buffer l)" "tests_failed l2 = tests_failed l"
    by blast
  let ?s2 = "s\<lparr>world := bmt_platform_puts (''[==========] '' @
       itoa_text (of_nat (g_bmt_test_count s) :: long) @ '' tests ran. ('' @
       itoa_text (ucast (total_duration_ms l) :: long) @ '' ms total)'' @ CR_LF @
       ''[  PASSED  ] '' @ itoa_text (word_of_int (tests_passed l) :: long) @ '' tests.'' @ CR_LF)
       (world s)\<rparr>"
  have b2: "12 \<le> length (buffer l2)" using assms l2 by simp
  from summary_failures_ok [OF b2, of ?s2] obtain l3 where
    f: "summary_failures l2 ?s2 =
     Inr (l3, ?s2\<lparr>world := bmt_platform_puts
       (if 0 < tests_failed l2
        then ''[  FAILED  ] '' @ itoa_text (word_of_int (tests_failed l2) :: long) @
             '' tests, listed below:'' @ CR_LF @
             concat (map (\<lambda>j. failed_line (g_bmt_test_cases ?s2 ! j)) (failed_indices 0 ?s2))
        else []) (world ?s2)\<rparr>)"
    and l3: "length (buffer l3) = length (buffer l2)" "tests_failed l3 = tests_failed l2"
    by blast
  have b3: "12 \<le> length (buffer l3)" using b2 l3 by simp
  show ?thesis
    unfolding t sum.case prod.case f summary_verdict_ok [OF b3]
    by (simp add: l2 l3 summary_text_def puts_puts)
qed

lemma bmt_run_all_tests_after_loop:
  assumes "run_header s = Inr (l0, s0)" and "run_loop 0 l0 s0 = Inr (l1, s1)"
  shows "bmt_run_all_tests s =
           Inr (tests_failed l1, s1\<lparr>world := bmt_platform_puts (summary_text l1 s1) (world s1)\<rparr>)"
proof -
  have "length (buffer l0) = 128" using run_header_ok [of s] assms(1) by auto
  then have "12 \<le> length (buffer l1)" using run_loop_buffer [OF assms(2)] by simp
  then show ?thesis
    unfolding bmt_run_all_tests_def assms sum.case prod.case by (rule summary_ok)
qed

lemma bmt_run_all_tests_Inr:
  assumes "bmt_run_all_tests s = Inr (r, s')"
  obtains l0 s0 l1 s1 where "run_header s = Inr (l0, s0)" and "run_loop 0 l0 s0 = Inr (l1, s1)"
    and "r = tests_failed l1"
    and "s' = s1\<lparr>world := bmt_platform_puts (summary_text l1 s1) (world s1)\<rparr>"
proof -
  from run_header_ok [of s] obtain l0 s0 where h: "run_header s = Inr (l0, s0)" by blast
  show ?thesis
  proof (cases "run_loop 0 l0 s0")
    case (Inl e)
    with assms h show ?thesis by (simp add: bmt_run_all_tests_def)
  next
    case (Inr p)
    then obtain l1 s1 where lp: "run_loop 0 l0 s0 = Inr (l1, s1)" by (cases p) simp
    from bmt_run_all_tests_after_loop [OF h lp] assms that [OF h lp] show ?thesis by simp
  qed
qed

lemma run_header_state:
  assumes "run_header s = Inr (l0, s0)"
  shows "g_bmt_test_cases s0 = g_bmt_test_cases s" and "g_bmt_test_count s0 = g_bmt_test_count s"
    and "length (buffer l0) = 128" and "tests_passed l0 = 0" and "tests_failed l0 = 0"
    and "total_duration_ms l0 = 0"
    and "world s0 = bmt_platform_puts (''[==========] Running '' @
       itoa_text (of_nat (g_bmt_test_count s) :: long) @ '' tests.'' @ CR_LF) (world s)"
  using run_header_ok [of s] assms by auto

lemma runnable_world [simp]: "runnable (s\<lparr>world := w\<rparr>) = runnable s"
  by (simp add: runnable_def)

lemma bmt_run_all_tests_total:
  assumes "runnable s"
  shows "\<exists>r s'. bmt_run_all_tests s = Inr (r, s')"
proof -
  from run_header_ok [of s] obtain l0 s0 where h: "run_header s = Inr (l0, s0)" by blast
  note hs = run_header_state [OF h]
  have "runnable s0" using assms hs(1,2) by (simp add: runnable_def)
  moreover have "12 \<le> length (buffer l0)" using hs(3) by simp
  ultimately obtain l1 s1 where "run_loop 0 l0 s0 = Inr (l1, s1)"
    using run_loop_total by blast
  from bmt_run_all_tests_after_loop [OF h this] show ?thesis by blast
qed

text \<open>The loop is a left fold of its iterations over the indices of the registered tests.\<close>

definition then_run_test :: "error + run_locals \<times> 'u bmt_state \<Rightarrow> nat \<Rightarrow> error + run_locals \<times> 'u bmt_state" where
  "then_run_test acc k = (case acc of Inl e \<Rightarrow> Inl e | Inr (l, s) \<Rightarrow> run_test k l s)"

lemma then_run_test_simps [simp]:
  "then_run_test (Inl e) k = Inl e"
  "then_run_test (Inr (l, s)) k = run_test k l s"
  by (simp_all add: then_run_test_def)

lemma foldl_then_run_test_Inl: "foldl then_run_test (Inl e) ks = Inl e"
  by (induction ks) simp_all

lemma run_loop_foldl:
  "run_loop i l s = foldl then_run_test (Inr (l, s)) [i..<g_bmt_test_count s]"
proof (induction i l s rule: run_loop.induct)
  case (1 i l s)
  show ?case
  proof (cases "i < g_bmt_test_count s")
    case False
    then show ?thesis by (simp add: run_loop_done)
  next
    case True
    then have upt: "[i..<g_bmt_test_count s] = i # [Suc i..<g_bmt_test_count s]"
      by (simp add: upt_conv_Cons)
    show ?thesis
    proof (cases "run_test i l s")
      case (Inl e)
      then show ?thesis
        using True by (simp add: run_loop_fault upt foldl_then_run_test_Inl)
    next
      case (Inr p)
      obtain l1 s1 where p: "p = (l1, s1)" by (cases p)
      have cnt: "g_bmt_test_count s1 = g_bmt_test_count s"
        using Inr p by (simp add: run_test_count)
      have "run_loop i l s = run_loop (Suc i) l1 s1"
        using True Inr p by (simp add: run_loop_step)
      also have "\<dots> = foldl then_run_test (Inr (l1, s1)) [Suc i..<g_bmt_test_count s1]"
        using 1 [OF True] Inr p by simp
      finally show ?thesis using Inr p cnt by (simp add: upt)
    qed
  qed
qed

lemma run_test_verdict:
  assumes "func (g_bmt_test_cases s ! i) = Some f"
    and "f (snd (start_test i s)) = (if passed_assert then Normal w else Longjmp w)"
    and "i < length (g_bmt_test_cases s)" and "12 \<le> length (buffer l)"
  shows "\<exists>l' s'. run_test i l s = Inr (l', s') \<and>
     last_run_passed (g_bmt_test_cases s' ! i) =
       (passed_assert \<and> \<not> g_bmt_current_test_failed_expect w) \<and>
     duration_ms (g_bmt_test_cases s' ! i) =
       elapsed_ticks (tick_source (world s) (tick_reads (world s))) (tick_source w (tick_reads w)) \<and>
     total_duration_ms l' = total_duration_ms l + duration_ms (g_bmt_test_cases s' ! i) \<and>
     tests_passed l' = tests_passed l + (if last_run_passed (g_bmt_test_cases s' ! i) then 1 else 0) \<and>
     tests_failed l' = tests_failed l + (if last_run_passed (g_bmt_test_cases s' ! i) then 0 else 1) \<and>
     length (buffer l') = length (buffer l) \<and>
     user (world s') = user w"
proof -
  let ?st = "tick_source (world s) (tick_reads (world s))"
  have rt: "run_test i l s = finish_test i ?st passed_assert l s w"
    using assms(1,2) by (cases passed_assert) (simp_all add: run_test_returns run_test_jumps)
  from finish_test_total [OF assms(4), of i ?st passed_assert s w] obtain l' s'
    where fin: "finish_test i ?st passed_assert l s w = Inr (l', s')"
      and len: "length (buffer l') = length (buffer l)"
    by blast
  note facts = finish_test_Inr [OF fin]
  have at_i: "g_bmt_test_cases s' ! i = (g_bmt_test_cases s ! i)
        \<lparr>duration_ms := fst (test_result ?st passed_assert w),
         last_run_passed := snd (test_result ?st passed_assert w)\<rparr>"
    using facts(1) assms(3) by simp
  show ?thesis
    using rt fin len facts(3-6) by (simp add: at_i test_result_def)
qed


lemma run_loop_counters:
  "run_loop i l s = Inr (l', s') \<Longrightarrow>
   tests_passed l' + tests_failed l' = tests_passed l + tests_failed l + int (g_bmt_test_count s - i) \<and>
   tests_passed l \<le> tests_passed l' \<and> tests_failed l \<le> tests_failed l'"
proof (induction i l s rule: run_loop.induct)
  case (1 i l s)
  show ?case
  proof (cases "i < g_bmt_test_count s")
    case False
    with 1(2) show ?thesis by (simp add: run_loop_done)
  next
    case True
    with 1(2) obtain l1 s1 where rt: "run_test i l s = Inr (l1, s1)"
      and rest: "run_loop (Suc i) l1 s1 = Inr (l', s')"
      by (subst (asm) run_loop.simps) (auto split: sum.splits)
    from run_test_Inr(1) [OF rt] obtain tc where
      tc: "g_bmt_test_cases s1 = (g_bmt_test_cases s)[i := tc] \<and>
           suite_name tc = suite_name (g_bmt_test_cases s ! i) \<and>
           test_name tc = test_name (g_bmt_test_cases s ! i) \<and>
           func tc = func (g_bmt_test_cases s ! i) \<and>
           tests_passed l1 = tests_passed l + (if last_run_passed tc then 1 else 0) \<and>
           tests_failed l1 = tests_failed l + (if last_run_passed tc then 0 else 1) \<and>
           total_duration_ms l1 = total_duration_ms l + duration_ms tc" ..
    have cnt: "g_bmt_test_count s1 = g_bmt_test_count s"
      using rt by (rule run_test_Inr(2))
    from 1(1) [OF True rt refl] rest
    have "tests_passed l' + tests_failed l' =
        tests_passed l1 + tests_failed l1 + int (g_bmt_test_count s1 - Suc i) \<and>
        tests_passed l1 \<le> tests_passed l' \<and> tests_failed l1 \<le> tests_failed l'"
      by simp
    then show ?thesis using True tc cnt by (auto split: if_splits)
  qed
qed

lemma map_nth_take: "n \<le> length xs \<Longrightarrow> map ((!) xs) [0..<n] = take n xs"
  by (rule nth_equalityI) simp_all

lemma failed_indices_take:
  assumes "g_bmt_test_count s \<le> length (g_bmt_test_cases s)"
  shows "map ((!) (g_bmt_test_cases s)) (failed_indices 0 s) =
         filter (\<lambda>tc. \<not> last_run_passed tc) (take (g_bmt_test_count s) (g_bmt_test_cases s))"
proof -
  have "filter (\<lambda>tc. \<not> last_run_passed tc) (take (g_bmt_test_count s) (g_bmt_test_cases s)) =
      filter (\<lambda>tc. \<not> last_run_passed tc) (map ((!) (g_bmt_test_cases s)) [0..<g_bmt_test_count s])"
    using assms by (simp add: map_nth_take)
  also have "\<dots> = map ((!) (g_bmt_test_cases s)) (failed_indices 0 s)"
    by (simp add: filter_map failed_indices_def comp_def)
  finally show ?thesis by simp
qed

text \<open>The first two lines of the summary.\<close>

definition totals_text :: "run_locals \<Rightarrow> 'u bmt_state \<Rightarrow> string" where
  "totals_text l s =
     ''[==========] '' @ itoa_text (of_nat (g_bmt_test_count s) :: long) @ '' tests ran. ('' @
     itoa_text (ucast (total_duration_ms l) :: long) @ '' ms total)'' @ CR_LF @
     ''[  PASSED  ] '' @ itoa_text (word_of_int (tests_passed l) :: long) @ '' tests.'' @ CR_LF"

text \<open>A run whose first test runs into undefined behaviour does not get past it.\<close>

lemma run_faults_in_first_test:
  assumes "tests = (suite, name, f) # others" and "length tests \<le> BMT_MAX_TEST_CASES"
    and "\<And>w. f w = Fault e"
  shows "bmt_run_all_tests (register_all tests (program_start ticks u)) = Inl e"
proof -
  let ?s = "register_all tests (program_start ticks u)"
  note r = register_all_program_start [OF assms(2), where ticks = ticks and u = u]
  from run_header_ok [of ?s] obtain l0 s0 where h: "run_header ?s = Inr (l0, s0)" by blast
  note hs = run_header_state [OF h]
  have i: "0 < g_bmt_test_count s0" using r(2) assms(1) by (simp add: hs)
  have "g_bmt_test_cases s0 ! 0 = registered_entry (tests ! 0)"
    using r(4) [of 0] assms(1) by (simp add: hs)
  then have f: "func (g_bmt_test_cases s0 ! 0) = Some f"
    using assms(1) by (simp add: registered_entry_def)
  have "run_test 0 l0 s0 = Inl e" using f assms(3) by (rule run_test_faults)
  with i have "run_loop 0 l0 s0 = Inl e" by (rule run_loop_fault)
  then show ?thesis by (simp add: bmt_run_all_tests_def h)
qed

section \<open>An example program\<close>

text \<open>
  A small test program, in the manner of \<^verbatim>\<open>examples/main_tests.c\<close>. Its memory is a
  list of numbers; the statement \<open>mark k\<close> appends \<open>k\<close> to it.
\<close>

definition mark :: "nat \<Rightarrow> nat list test_body" where
  "mark k w = Normal (w\<lparr>user := user w @ [k]\<rparr>)"

definition example_locals :: run_locals where
  "example_locals =
     \<lparr>buffer = stack_array 128, tests_passed = 0, tests_failed = 0, total_duration_ms = 0\<rparr>"

definition wrapping_clock :: "nat \<Rightarrow> uint32_t" where
  "wrapping_clock n = (if n = 0 then 0xFFFFFFF0 else 5)"

definition example_tests :: "(string \<times> string \<times> nat list test_body) list" where
  "example_tests =
     [(''Example'', ''Passes'', mark 1),
      (''Example'', ''Fatal'', seq_stmt (mark 2) (seq_stmt (FAIL ''example.c'' 10) (mark 3))),
      (''Example'', ''Expect'',
         seq_stmt (EXPECT_TRUE False ''1 == 2'' ''example.c'' 20) (mark 4))]"

definition example_registry :: "nat list bmt_state" where
  "example_registry = register_all example_tests (program_start wrapping_clock [])"

lemma example_registry_facts:
  "registry_ok example_registry"
  "g_bmt_test_count example_registry = 3"
  "world example_registry = world (program_start wrapping_clock [])"
  "length (g_bmt_test_cases example_registry) = 64"
  "g_bmt_test_cases example_registry ! 0 = registered_entry (example_tests ! 0)"
  "g_bmt_test_cases example_registry ! 1 = registered_entry (example_tests ! 1)"
  "g_bmt_test_cases example_registry ! 2 = registered_entry (example_tests ! 2)"
proof -
  have len: "length example_tests \<le> BMT_MAX_TEST_CASES"
    by (simp add: example_tests_def BMT_MAX_TEST_CASES_def)
  note r = register_all_program_start [OF len, where ticks = wrapping_clock and u = "[]",
      folded example_registry_def]
  show "registry_ok example_registry" by (rule r(1))
  then show "length (g_bmt_test_cases example_registry) = 64"
    by (simp add: registry_ok_def BMT_MAX_TEST_CASES_def)
  show "g_bmt_test_count example_registry = 3" using r(2) by (simp add: example_tests_def)
  show "world example_registry = world (program_start wrapping_clock [])" by (rule r(3))
  show "g_bmt_test_cases example_registry ! 0 = registered_entry (example_tests ! 0)"
    "g_bmt_test_cases example_registry ! 1 = registered_entry (example_tests ! 1)"
    "g_bmt_test_cases example_registry ! 2 = registered_entry (example_tests ! 2)"
    by (rule r(4), simp add: example_tests_def)+
qed

text \<open>A program whose only test calls \<open>ADD_FAILURE\<close> and goes on.\<close>

definition add_failure_program :: "nat list bmt_state" where
  "add_failure_program =
     register_all [(''Example'', ''AddFailure'', seq_stmt (ADD_FAILURE ''example.c'' 30) (mark 5))]
       (program_start (\<lambda>n. 0) [])"

text \<open>
  Two programs whose first test compares the first three characters of \<open>"abc"\<close> and
  \<open>"abd"\<close>, with the fatal and with the non-fatal check, and then leaves a mark; a second test
  follows.
\<close>

definition strneq_assert_program :: "nat list bmt_state" where
  "strneq_assert_program =
     register_all
       [(''Example'', ''Prefix'',
           seq_stmt (ASSERT_STRNEQ (Some ''abc'') ''a'' (Some ''abd'') ''b'' 3 ''3'' ''example.c'' 40)
             (mark 6)),
        (''Example'', ''Next'', mark 7)]
       (program_start (\<lambda>n. 0) [])"

definition strneq_expect_program :: "nat list bmt_state" where
  "strneq_expect_program =
     register_all
       [(''Example'', ''Prefix'',
           seq_stmt (EXPECT_STRNEQ (Some ''abc'') ''a'' (Some ''abd'') ''b'' 3 ''3'' ''example.c'' 50)
             (mark 8)),
        (''Example'', ''Next'', mark 9)]
       (program_start (\<lambda>n. 0) [])"

text \<open>A registry filled to its capacity.\<close>

definition full_registry :: "nat list bmt_state" where
  "full_registry =
     register_all (replicate 64 (''Example'', ''Filler'', mark 0)) (program_start (\<lambda>n. 0) [])"

text \<open>\<open>n\<close> tests, the \<open>k\<close>-th of which leaves the mark \<open>k\<close>.\<close>

definition marking_tests :: "(nat \<Rightarrow> string) \<Rightarrow> (nat \<Rightarrow> string) \<Rightarrow> nat \<Rightarrow> (string \<times> string \<times> nat list test_body) list" where
  "marking_tests suite name n = map (\<lambda>k. (suite k, name k, mark k)) [0..<n]"

lemma fault_free_mark: "fault_free (mark k)"
  by (simp add: fault_free_def mark_def)

lemma runnable_example_registry: "runnable example_registry"
  unfolding example_registry_def
proof (rule runnable_registered)
  show "length example_tests \<le> BMT_MAX_TEST_CASES"
    by (simp add: example_tests_def BMT_MAX_TEST_CASES_def)
  show "\<forall>t\<in>set example_tests. fault_free (snd (snd t))"
    by (simp add: example_tests_def fault_free_seq_stmt fault_free_mark fault_free_FAIL
        fault_free_EXPECT_TRUE NUL_def)
qed

lemma run_loop_marks:
  "12 \<le> length (buffer l) \<Longrightarrow> g_bmt_test_count s \<le> length (g_bmt_test_cases s) \<Longrightarrow>
   \<forall>k<g_bmt_test_count s. func (g_bmt_test_cases s ! k) = Some (mark k) \<Longrightarrow>
   \<exists>l' s'. run_loop i l s = Inr (l', s') \<and>
     user (world s') = user (world s) @ [i..<g_bmt_test_count s]"
proof (induction i l s rule: run_loop.induct)
  case (1 i l s)
  show ?case
  proof (cases "i < g_bmt_test_count s")
    case False
    then show ?thesis by (simp add: run_loop_done)
  next
    case True
    let ?entry = "snd (start_test i s)"
    let ?w = "?entry\<lparr>user := user ?entry @ [i]\<rparr>"
    have f: "func (g_bmt_test_cases s ! i) = Some (mark i)" using 1(4) True by simp
    have b: "mark i ?entry = (if True then Normal ?w else Longjmp ?w)" by (simp add: mark_def)
    have i_len: "i < length (g_bmt_test_cases s)" using True 1(3) by simp
    from run_test_verdict [OF f b i_len 1(2)] obtain l1 s1
      where rt: "run_test i l s = Inr (l1, s1)"
        and len: "length (buffer l1) = length (buffer l)"
        and u: "user (world s1) = user ?w"
      by blast
    from run_test_Inr(1) [OF rt] obtain tc where
      tc: "g_bmt_test_cases s1 = (g_bmt_test_cases s)[i := tc] \<and>
           suite_name tc = suite_name (g_bmt_test_cases s ! i) \<and>
           test_name tc = test_name (g_bmt_test_cases s ! i) \<and>
           func tc = func (g_bmt_test_cases s ! i) \<and>
           tests_passed l1 = tests_passed l + (if last_run_passed tc then 1 else 0) \<and>
           tests_failed l1 = tests_failed l + (if last_run_passed tc then 0 else 1) \<and>
           total_duration_ms l1 = total_duration_ms l + duration_ms tc" ..
    have cnt: "g_bmt_test_count s1 = g_bmt_test_count s" using rt by (rule run_test_Inr(2))
    have funcs: "func (g_bmt_test_cases s1 ! k) = func (g_bmt_test_cases s ! k)" for k
      using tc i_len by (cases "k = i") simp_all
    have "\<exists>l' s'. run_loop (Suc i) l1 s1 = Inr (l', s') \<and>
        user (world s') = user (world s1) @ [Suc i..<g_bmt_test_count s1]"
      using 1(1) [OF True rt refl] 1(2,3,4) len cnt tc funcs by simp
    then obtain l' s' where "run_loop (Suc i) l1 s1 = Inr (l', s')"
      and "user (world s') = user (world s1) @ [Suc i..<g_bmt_test_count s1]"
      by blast
    then show ?thesis
      using True rt u cnt by (simp add: run_loop_step upt_conv_Cons)
  qed
qed

lemma marks_run_in_order:
  assumes "n \<le> BMT_MAX_TEST_CASES"
  shows "\<exists>r s'. bmt_run_all_tests (register_all (marking_tests suite name n) (program_start ticks [])) =
           Inr (r, s') \<and> user (world s') = [0..<n]"
proof -
  let ?s = "register_all (marking_tests suite name n) (program_start ticks [])"
  have len: "length (marking_tests suite name n) \<le> BMT_MAX_TEST_CASES"
    using assms by (simp add: marking_tests_def)
  note r = register_all_program_start [OF len, where ticks = ticks and u = "[]"]
  from run_header_ok [of ?s] obtain l0 s0 where h: "run_header ?s = Inr (l0, s0)" by blast
  note hs = run_header_state [OF h]
  have cnt: "g_bmt_test_count s0 = n" using r(2) hs(2) by (simp add: marking_tests_def)
  have ok: "g_bmt_test_count s0 \<le> length (g_bmt_test_cases s0)"
    using r(1) hs(1,2) by (simp add: registry_ok_def)
  have funcs: "\<forall>k<g_bmt_test_count s0. func (g_bmt_test_cases s0 ! k) = Some (mark k)"
    using r(4) cnt hs(1) by (simp add: marking_tests_def registered_entry_def)
  have buf: "12 \<le> length (buffer l0)" using hs(3) by simp
  from run_loop_marks [OF buf ok funcs, of 0] obtain l1 s1
    where lp: "run_loop 0 l0 s0 = Inr (l1, s1)"
      and u: "user (world s1) = user (world s0) @ [0..<g_bmt_test_count s0]"
    by blast
  have "user (world s0) = []" using hs(7) r(3) by (simp add: program_start_def)
  then show ?thesis
    using bmt_run_all_tests_after_loop [OF h lp] u cnt by simp
qed

text \<open>
  The run of the example program, from the first line of its output to the last: the first
  test passes and takes 21 ticks on the wrapping clock, the second fails at its fatal check
  before it leaves the mark 3, the third fails at its non-fatal check and leaves the mark 4.
\<close>

lemma itoa_text_examples [simp]:
  "itoa_text (0 :: long) = ''0''" "itoa_text (1 :: long) = ''1''" "itoa_text (2 :: long) = ''2''"
  "itoa_text (3 :: long) = ''3''" "itoa_text (10 :: long) = ''10''" "itoa_text (20 :: long) = ''20''"
  "itoa_text (21 :: long) = ''21''"
  by code_simp+

lemma upt_0_3: "[0..<3] = [0, 1, 2]"
  by (simp add: upt_rec)

lemma example_run:
  "(case bmt_run_all_tests example_registry of
      Inl e \<Rightarrow> False
    | Inr (r, s') \<Rightarrow>
        r = 2 \<and> user (world s') = [1, 2, 4] \<and>
        map (\<lambda>k. last_run_passed (g_bmt_test_cases s' ! k)) [0, 1, 2] = [True, False, False] \<and>
        map (\<lambda>k. duration_ms (g_bmt_test_cases s' ! k)) [0, 1, 2] = [21, 0, 0] \<and>
        emitted (world s') =
          ''[==========] Running 3 tests.'' @ CR_LF @
          ''[ RUN      ] Example.Passes'' @ CR_LF @
          ''[       OK ] Example.Passes (21 ms)'' @ CR_LF @
          ''[ RUN      ] Example.Fatal'' @ CR_LF @
          ''example.c:10: Failure'' @ CR_LF @
          ''  FAIL(Explicit failure triggered by FAIL())'' @ CR_LF @
          ''[  FAILED  ] Example.Fatal (0 ms)'' @ CR_LF @
          ''[ RUN      ] Example.Expect'' @ CR_LF @
          ''example.c:20: Failure'' @ CR_LF @
          ''  EXPECT_TRUE(1 == 2)'' @ CR_LF @
          ''[  FAILED  ] Example.Expect (0 ms)'' @ CR_LF @
          ''[==========] 3 tests ran. (21 ms total)'' @ CR_LF @
          ''[  PASSED  ] 1 tests.'' @ CR_LF @
          ''[  FAILED  ] 2 tests, listed below:'' @ CR_LF @
          ''[  FAILED  ] Example.Fatal'' @ CR_LF @
          ''[  FAILED  ] Example.Expect'' @ CR_LF @
          CR_LF @
          ''2 FAILED TESTS'' @ CR_LF)"
  by (simp add: bmt_run_all_tests_def run_header_def puts_long_ok summary_ok summary_text_def
      failed_indices_def failed_line_def failure_text_def upt_0_3
      run_loop.simps run_test_def start_test_def finish_test_def Let_def
      example_registry_def example_tests_def register_all.simps bmt_register_test_def program_start_def
      BMT_MAX_TEST_CASES_def BMT_MAX_SUITE_NAME_LEN_def BMT_MAX_TEST_NAME_LEN_def
      seq_stmt_def mark_def FAIL_jumps EXPECT_TRUE_fails NUL_def
      stack_array_def length_after_itoa_long platform_defs wrapping_clock_def elapsed_ticks_def
      zero_test_case_def nth_list_update)

section \<open>Checks whose report completes\<close>

text \<open>
  A fatal check that fails and whose report completes transfers control to the resumption
  point of the runner: whatever statement follows it in the body, the body leaves by
  \<open>longjmp\<close> with the memory as the report left it. The runner then records the test as
  failed, keeps the memory of the moment of the jump, and goes on with the next descriptor;
  the loop and the whole run return when every registered body is free of faults.
\<close>

lemma fatal_failure_with_report:
  assumes "runnable s" and "g_bmt_test_count s \<le> length (g_bmt_test_cases s)"
    and "12 \<le> length (buffer l)" and "i < g_bmt_test_count s"
    and "func (g_bmt_test_cases s ! i) = Some f"
    and "f (snd (start_test i s)) = Longjmp w"
    and "bmt_report_failure file line assertion_type expr_str msg_fmt args w0 = Inr w1"
  shows "seq_stmt (BMT_ASSERT_COMMON False file line assertion_type expr_str msg_fmt args) rest w0 =
           Longjmp w1 \<and>
         (\<exists>l' s'. run_test i l s = Inr (l', s') \<and>
            \<not> last_run_passed (g_bmt_test_cases s' ! i) \<and>
            tests_failed l' = tests_failed l + 1 \<and>
            user (world s') = user w \<and>
            run_loop i l s = run_loop (Suc i) l' s' \<and>
            (\<exists>l'' s''. run_loop (Suc i) l' s' = Inr (l'', s''))) \<and>
         (\<exists>r s'. bmt_run_all_tests s = Inr (r, s'))"
proof (intro conjI)
  show "seq_stmt (BMT_ASSERT_COMMON False file line assertion_type expr_str msg_fmt args) rest w0 =
           Longjmp w1"
    using assms(7) by (simp add: seq_stmt_def BMT_ASSERT_COMMON_def bmt_terminate_current_test_def)
next
  have i_len: "i < length (g_bmt_test_cases s)" using assms(2,4) by simp
  have ex: "f (snd (start_test i s)) = (if False then Normal w else Longjmp w)"
    using assms(6) by simp
  from run_test_verdict [OF assms(5) ex i_len assms(3)] obtain l' s'
    where rt: "run_test i l s = Inr (l', s')"
      and v: "\<not> last_run_passed (g_bmt_test_cases s' ! i)"
      and c: "tests_failed l' = tests_failed l + (if last_run_passed (g_bmt_test_cases s' ! i) then 0 else 1)"
      and u: "user (world s') = user w"
    by auto
  have step: "run_loop i l s = run_loop (Suc i) l' s'"
    using assms(4) rt by (rule run_loop_step)
  from run_loop_total [OF assms(3,1), of i] obtain l'' s'' where "run_loop i l s = Inr (l'', s'')"
    by blast
  then have "run_loop (Suc i) l' s' = Inr (l'', s'')" using step by simp
  then show "\<exists>l' s'. run_test i l s = Inr (l', s') \<and>
            \<not> last_run_passed (g_bmt_test_cases s' ! i) \<and>
            tests_failed l' = tests_failed l + 1 \<and>
            user (world s') = user w \<and>
            run_loop i l s = run_loop (Suc i) l' s' \<and>
            (\<exists>l'' s''. run_loop (Suc i) l' s' = Inr (l'', s''))"
    using rt v c u step by auto
next
  show "\<exists>r s'. bmt_run_all_tests s = Inr (r, s')"
    using assms(1) by (rule bmt_run_all_tests_total)
qed

lemma fatal_failure_with_report_example:
  "(\<exists>l' s'. run_test 1 example_locals example_registry = Inr (l', s') \<and>
      \<not> last_run_passed (g_bmt_test_cases s' ! 1) \<and> tests_failed l' = 1 \<and>
      user (world s') = [2] \<and>
      (\<exists>l'' s''. run_loop 2 l' s' = Inr (l'', s''))) \<and>
   (\<exists>r s'. bmt_run_all_tests example_registry = Inr (r, s'))"
proof -
  let ?entry = "snd (start_test 1 example_registry)"
  let ?w0 = "?entry\<lparr>user := user ?entry @ [2]\<rparr>"
  let ?w1 = "bmt_platform_puts (''example.c'' @ '':'' @ itoa_text (10 :: long) @ '': Failure'' @ CR_LF @
       failure_text ''FAIL'' ''Explicit failure triggered by FAIL()'') ?w0"
  have cnt: "g_bmt_test_count example_registry \<le> length (g_bmt_test_cases example_registry)"
    by (simp add: example_registry_facts)
  have buf: "12 \<le> length (buffer example_locals)"
    by (simp add: example_locals_def stack_array_def)
  have i: "1 < g_bmt_test_count example_registry" by (simp add: example_registry_facts)
  have f: "func (g_bmt_test_cases example_registry ! 1) =
      Some (seq_stmt (mark 2) (seq_stmt (FAIL ''example.c'' 10) (mark 3)))"
    using example_registry_facts(6) by (simp add: registered_entry_def example_tests_def)
  have j: "seq_stmt (mark 2) (seq_stmt (FAIL ''example.c'' 10) (mark 3)) ?entry = Longjmp ?w1"
    by (simp add: seq_stmt_def mark_def FAIL_jumps)
  have r: "bmt_report_failure ''example.c'' 10 ''FAIL'' ''Explicit failure triggered by FAIL()''
      None [] ?w0 = Inr ?w1"
    by (simp add: bmt_report_failure_no_message NUL_def)
  from fatal_failure_with_report [OF runnable_example_registry cnt buf i f j r, of "mark 3"]
  show ?thesis
    by (auto simp: example_registry_facts program_start_def example_locals_def numeral_2_eq_2)
qed

text \<open>
  A non-fatal check that fails and whose report completes sets the flag and returns normally,
  so that the statements after it run, from the memory with the report emitted and the flag
  set. The flag is false when a body starts, and the state recorded for the test is: the body
  returned normally, and the flag is false at its end.
\<close>

lemma expect_failure_with_report:
  assumes "i < length (g_bmt_test_cases s)" and "12 \<le> length (buffer l)"
    and "func (g_bmt_test_cases s ! i) = Some f"
    and "f (snd (start_test i s)) = (if passed_assert then Normal w else Longjmp w)"
    and "bmt_report_failure file line assertion_type expr_str msg_fmt args w0 = Inr w1"
  shows "BMT_EXPECT_COMMON False file line assertion_type expr_str msg_fmt args w0 =
           Normal (w1\<lparr>g_bmt_current_test_failed_expect := True\<rparr>) \<and>
         seq_stmt (BMT_EXPECT_COMMON False file line assertion_type expr_str msg_fmt args) rest w0 =
           rest (w1\<lparr>g_bmt_current_test_failed_expect := True\<rparr>) \<and>
         \<not> g_bmt_current_test_failed_expect (snd (start_test i s)) \<and>
         (\<exists>l' s'. run_test i l s = Inr (l', s') \<and>
            last_run_passed (g_bmt_test_cases s' ! i) =
              (passed_assert \<and> \<not> g_bmt_current_test_failed_expect w))"
proof -
  have e: "BMT_EXPECT_COMMON False file line assertion_type expr_str msg_fmt args w0 =
           Normal (w1\<lparr>g_bmt_current_test_failed_expect := True\<rparr>)"
    using assms(5) by (simp add: BMT_EXPECT_COMMON_def)
  from run_test_verdict [OF assms(3,4,1,2)] obtain l' s'
    where "run_test i l s = Inr (l', s')"
      and "last_run_passed (g_bmt_test_cases s' ! i) =
        (passed_assert \<and> \<not> g_bmt_current_test_failed_expect w)"
    by blast
  then show ?thesis using e by (auto simp: seq_stmt_simps)
qed

lemma expect_failure_with_report_example:
  "seq_stmt (EXPECT_TRUE False ''1 == 2'' ''example.c'' 20) (mark 4)
      (snd (start_test 2 example_registry)) =
     mark 4 ((bmt_platform_puts (''example.c:'' @ itoa_text (20 :: long) @ '': Failure'' @ CR_LF @
         failure_text ''EXPECT_TRUE'' ''1 == 2'') (snd (start_test 2 example_registry)))
       \<lparr>g_bmt_current_test_failed_expect := True\<rparr>) \<and>
   (\<exists>l' s'. run_test 2 example_locals example_registry = Inr (l', s') \<and>
      \<not> last_run_passed (g_bmt_test_cases s' ! 2))"
proof -
  let ?entry = "snd (start_test 2 example_registry)"
  let ?w1 = "bmt_platform_puts (''example.c:'' @ itoa_text (20 :: long) @ '': Failure'' @ CR_LF @
         failure_text ''EXPECT_TRUE'' ''1 == 2'') ?entry"
  let ?w = "?w1\<lparr>g_bmt_current_test_failed_expect := True, user := [4]\<rparr>"
  have i: "2 < length (g_bmt_test_cases example_registry)"
    by (simp add: example_registry_facts)
  have buf: "12 \<le> length (buffer example_locals)"
    by (simp add: example_locals_def stack_array_def)
  have f: "func (g_bmt_test_cases example_registry ! 2) =
      Some (seq_stmt (EXPECT_TRUE False ''1 == 2'' ''example.c'' 20) (mark 4))"
    using example_registry_facts(7) by (simp add: registered_entry_def example_tests_def)
  have b: "seq_stmt (EXPECT_TRUE False ''1 == 2'' ''example.c'' 20) (mark 4) ?entry =
      (if True then Normal ?w else Longjmp ?w)"
    by (simp add: seq_stmt_def EXPECT_TRUE_fails NUL_def mark_def example_registry_facts
        program_start_def)
  have r: "bmt_report_failure ''example.c'' 20 ''EXPECT_TRUE'' ''1 == 2'' None [] ?entry = Inr ?w1"
    by (simp add: bmt_report_failure_no_message NUL_def)
  from expect_failure_with_report [OF i buf f b r, of "mark 4"]
  show ?thesis
    by (simp add: EXPECT_TRUE_def)
qed

section \<open>The claims\<close>

text \<open>
  C1: a fatal check that fails does not always reach the resumption point. A failing
  \<open>ASSERT_STRNEQ\<close> runs into undefined behaviour inside its report, before
  \<open>bmt_terminate_current_test\<close> is called: the body neither returns nor jumps, whatever
  statement follows the check. The run of a program whose first test fails this check does not
  return, and its second test is never started.
\<close>

theorem failing_ASSERT_STRNEQ_ends_the_run:
  "seq_stmt (ASSERT_STRNEQ (Some ''abc'') ''a'' (Some ''abd'') ''b'' 3 ''3'' ''example.c'' 40) rest w =
     Fault Bad_va_arg \<and>
   bmt_run_all_tests strneq_assert_program = Inl Bad_va_arg"
proof
  show "seq_stmt (ASSERT_STRNEQ (Some ''abc'') ''a'' (Some ''abd'') ''b'' 3 ''3'' ''example.c'' 40) rest w =
     Fault Bad_va_arg"
    by (simp add: seq_stmt_def ASSERT_STRNEQ_faults)
  show "bmt_run_all_tests strneq_assert_program = Inl Bad_va_arg"
    unfolding strneq_assert_program_def
    by (rule run_faults_in_first_test [OF refl])
       (simp_all add: BMT_MAX_TEST_CASES_def seq_stmt_def ASSERT_STRNEQ_faults)
qed

text \<open>
  C2: a non-fatal check that fails does not always set the flag and go on. A failing
  \<open>EXPECT_STRNEQ\<close> runs into undefined behaviour inside its report, before the flag is
  assigned: the statements after the check do not run, and no state is recorded for the
  test, because the run of a program whose first test fails this check does not return.
\<close>

theorem failing_EXPECT_STRNEQ_ends_the_run:
  "seq_stmt (EXPECT_STRNEQ (Some ''abc'') ''a'' (Some ''abd'') ''b'' 3 ''3'' ''example.c'' 50) rest w =
     Fault Bad_va_arg \<and>
   bmt_run_all_tests strneq_expect_program = Inl Bad_va_arg"
proof
  show "seq_stmt (EXPECT_STRNEQ (Some ''abc'') ''a'' (Some ''abd'') ''b'' 3 ''3'' ''example.c'' 50) rest w =
     Fault Bad_va_arg"
    by (simp add: seq_stmt_def EXPECT_STRNEQ_faults)
  show "bmt_run_all_tests strneq_expect_program = Inl Bad_va_arg"
    unfolding strneq_expect_program_def
    by (rule run_faults_in_first_test [OF refl])
       (simp_all add: BMT_MAX_TEST_CASES_def seq_stmt_def EXPECT_STRNEQ_faults)
qed

text \<open>
  C3: the value returned by \<open>bmt_run_all_tests\<close> is the number of registered descriptors
  recorded as failed. After the line of the passed tests the run prints, when that number is
  not zero, the heading of the list and one \<open>suite.name\<close> line for each of them, in the order
  of the registry, and nothing of it when the number is zero; then the last line.
\<close>

theorem failure_count_and_list:
  assumes "bmt_run_all_tests s = Inr (r, s')" and "registry_ok s"
  shows "let failing = filter (\<lambda>tc. \<not> last_run_passed tc)
                         (take (g_bmt_test_count s') (g_bmt_test_cases s'))
         in r = int (length failing) \<and>
            (\<exists>l0 s0 l1 s1. run_header s = Inr (l0, s0) \<and> run_loop 0 l0 s0 = Inr (l1, s1) \<and>
               emitted (world s') =
                 emitted (world s1) @ totals_text l1 s1 @
                 (if failing = [] then []
                  else ''[  FAILED  ] '' @ decimal (length failing) @ '' tests, listed below:'' @
                       CR_LF @ concat (map failed_line failing)) @
                 CR_LF @ decimal (length failing) @
                 (if length failing = 1 then '' FAILED TEST'' else '' FAILED TESTS'') @ CR_LF)"
proof -
  from assms(1) obtain l0 s0 l1 s1 where h: "run_header s = Inr (l0, s0)"
    and lp: "run_loop 0 l0 s0 = Inr (l1, s1)" and r: "r = tests_failed l1"
    and s': "s' = s1\<lparr>world := bmt_platform_puts (summary_text l1 s1) (world s1)\<rparr>"
    by (rule bmt_run_all_tests_Inr)
  note hs = run_header_state [OF h]
  have ok0: "g_bmt_test_count s0 \<le> length (g_bmt_test_cases s0)"
    using assms(2) by (simp add: hs registry_ok_def)
  from run_loop_Inr [OF lp ok0]
  have cnt: "g_bmt_test_count s1 = g_bmt_test_count s0"
    and len: "length (g_bmt_test_cases s1) = length (g_bmt_test_cases s0)"
    and failed: "tests_failed l1 = int (length (failed_indices 0 s1))"
    by (simp_all add: hs)
  let ?failing = "filter (\<lambda>tc. \<not> last_run_passed tc)
                         (take (g_bmt_test_count s1) (g_bmt_test_cases s1))"
  have ok1: "g_bmt_test_count s1 \<le> length (g_bmt_test_cases s1)" using ok0 cnt len by simp
  have idx: "map ((!) (g_bmt_test_cases s1)) (failed_indices 0 s1) = ?failing"
    using ok1 by (rule failed_indices_take)
  have n: "length ?failing = length (failed_indices 0 s1)"
    using arg_cong [OF idx, of length] by simp
  have empty: "(failed_indices 0 s1 = []) = (?failing = [])"
    using n by (metis length_0_conv)
  have listing: "concat (map (\<lambda>j. failed_line (g_bmt_test_cases s1 ! j)) (failed_indices 0 s1)) =
      concat (map failed_line ?failing)"
    using arg_cong [OF idx, of "\<lambda>xs. concat (map failed_line xs)"] by (simp add: comp_def)
  have "length (failed_indices 0 s1) \<le> g_bmt_test_count s1"
    using length_filter_le [of "\<lambda>j. \<not> last_run_passed (g_bmt_test_cases s1 ! j)" "[0..<g_bmt_test_count s1]"]
    by (simp add: failed_indices_def)
  then have small: "length ?failing < 2 ^ 31"
    using assms(2) cnt hs(2) n by (simp add: registry_ok_def BMT_MAX_TEST_CASES_def)
  have shown: "itoa_text (word_of_int (tests_failed l1) :: long) = decimal (length ?failing)"
    using itoa_text_of_nat [OF small] by (simp add: failed n)
  have "summary_text l1 s1 = totals_text l1 s1 @
       (if ?failing = [] then []
        else ''[  FAILED  ] '' @ decimal (length ?failing) @ '' tests, listed below:'' @
             CR_LF @ concat (map failed_line ?failing)) @
       CR_LF @ decimal (length ?failing) @
       (if length ?failing = 1 then '' FAILED TEST'' else '' FAILED TESTS'') @ CR_LF"
    unfolding summary_text_def totals_text_def shown listing
    using n empty by (simp add: failed)
  then show ?thesis
    unfolding Let_def using h lp r failed n by (auto simp: s')
qed

theorem failure_count_and_list_witness:
  "\<exists>s'. bmt_run_all_tests example_registry = Inr (2, s') \<and>
     length (filter (\<lambda>tc. \<not> last_run_passed tc)
               (take (g_bmt_test_count s') (g_bmt_test_cases s'))) = 2"
proof -
  obtain s' where run: "bmt_run_all_tests example_registry = Inr (2, s')"
    using example_run by (auto split: sum.splits)
  from failure_count_and_list [OF run example_registry_facts(1)]
  have "length (filter (\<lambda>tc. \<not> last_run_passed tc)
               (take (g_bmt_test_count s') (g_bmt_test_cases s'))) = 2"
    by (simp add: Let_def)
  with run show ?thesis by blast
qed

text \<open>
  C4: a registration never takes the count above \<open>BMT_MAX_TEST_CASES\<close>; when the count is at
  the capacity, the registration changes nothing but the output, to which it appends the
  diagnostic; and the count of a program that has run any list of registrations from its start
  is at most the capacity.
\<close>

theorem registration_beyond_capacity:
  assumes "g_bmt_test_count s \<le> BMT_MAX_TEST_CASES"
  shows "g_bmt_test_count (bmt_register_test suite name body s) \<le> BMT_MAX_TEST_CASES \<and>
         (g_bmt_test_count s = BMT_MAX_TEST_CASES \<longrightarrow>
            bmt_register_test suite name body s =
              s\<lparr>world := bmt_platform_puts
                (''ERROR: Max test cases reached. Increase BMT_MAX_TEST_CASES.'' @ CR_LF) (world s)\<rparr>) \<and>
         g_bmt_test_count (register_all tests (program_start ticks u)) \<le> BMT_MAX_TEST_CASES"
proof -
  have "g_bmt_test_count (program_start ticks u) \<le> BMT_MAX_TEST_CASES"
    by (simp add: program_start_def)
  then have "g_bmt_test_count (register_all tests (program_start ticks u)) \<le> BMT_MAX_TEST_CASES"
    by (rule register_all_count_le)
  then show ?thesis using assms by (simp add: bmt_register_test_def)
qed

theorem registration_beyond_capacity_witness:
  "g_bmt_test_count full_registry = 64 \<and>
   g_bmt_test_count (bmt_register_test ''Example'' ''OneTooMany'' (Some (mark 1)) full_registry) = 64 \<and>
   g_bmt_test_cases (bmt_register_test ''Example'' ''OneTooMany'' (Some (mark 1)) full_registry) =
     g_bmt_test_cases full_registry \<and>
   emitted (world (bmt_register_test ''Example'' ''OneTooMany'' (Some (mark 1)) full_registry)) =
     ''ERROR: Max test cases reached. Increase BMT_MAX_TEST_CASES.'' @ CR_LF"
proof -
  have len: "length (replicate 64 (''Example'', ''Filler'', mark 0)) \<le> BMT_MAX_TEST_CASES"
    by (simp add: BMT_MAX_TEST_CASES_def)
  note r = register_all_program_start [OF len, where ticks = "\<lambda>n. 0" and u = "[]",
      folded full_registry_def]
  have c: "g_bmt_test_count full_registry = 64" using r(2) by simp
  then have le: "g_bmt_test_count full_registry \<le> BMT_MAX_TEST_CASES"
    by (simp add: BMT_MAX_TEST_CASES_def)
  have w: "emitted (world full_registry) = []" using r(3) by (simp add: program_start_def)
  from registration_beyond_capacity [OF le, where suite = "''Example''" and name = "''OneTooMany''"
      and body = "Some (mark 1)" and tests = "[] :: (string \<times> string \<times> unit test_body) list"
      and ticks = "\<lambda>n. 0" and u = "()"]
  show ?thesis using c w by (simp add: BMT_MAX_TEST_CASES_def)
qed

text \<open>
  C5: the duration recorded for a test is \<open>end - start\<close> when the tick read after the body
  is not below the tick read before it, and \<open>(0xFFFFFFFF - start) + end + 1\<close> when the
  counter has wrapped, both as numbers without wrap-around; a start of \<open>0xFFFFFFF0\<close> and an
  end of \<open>5\<close> give 21; and the duration is added to the total duration of the run.
\<close>

theorem duration_is_wraparound_safe:
  assumes "func (g_bmt_test_cases s ! i) = Some f"
    and "f (snd (start_test i s)) = Normal w \<or> f (snd (start_test i s)) = Longjmp w"
    and "i < length (g_bmt_test_cases s)" and "12 \<le> length (buffer l)"
  shows "\<exists>l' s'. run_test i l s = Inr (l', s') \<and>
     (let start_ticks = tick_source (world s) (tick_reads (world s));
          end_ticks = tick_source w (tick_reads w);
          d = duration_ms (g_bmt_test_cases s' ! i)
      in (start_ticks \<le> end_ticks \<longrightarrow> unat d = unat end_ticks - unat start_ticks) \<and>
         (end_ticks < start_ticks \<longrightarrow>
            unat d = (0xFFFFFFFF - unat start_ticks) + unat end_ticks + 1) \<and>
         (start_ticks = 0xFFFFFFF0 \<and> end_ticks = 5 \<longrightarrow> d = 21) \<and>
         total_duration_ms l' = total_duration_ms l + d)"
proof -
  from assms(2) obtain pa where "f (snd (start_test i s)) = (if pa then Normal w else Longjmp w)"
    by (metis (full_types))
  from run_test_verdict [OF assms(1) this assms(3,4)] obtain l' s'
    where rt: "run_test i l s = Inr (l', s')"
      and d: "duration_ms (g_bmt_test_cases s' ! i) =
        elapsed_ticks (tick_source (world s) (tick_reads (world s))) (tick_source w (tick_reads w))"
      and t: "total_duration_ms l' = total_duration_ms l + duration_ms (g_bmt_test_cases s' ! i)"
    by blast
  show ?thesis
    using rt t
    by (auto simp: d Let_def elapsed_ticks_forward elapsed_ticks_wrapped elapsed_ticks_example)
qed



theorem duration_is_wraparound_safe_witness:
  "\<exists>l' s'. run_test 0 example_locals example_registry = Inr (l', s') \<and>
     duration_ms (g_bmt_test_cases s' ! 0) = 21 \<and> total_duration_ms l' = 21"
proof -
  let ?w = "(snd (start_test 0 example_registry))\<lparr>user := user (snd (start_test 0 example_registry)) @ [1]\<rparr>"
  have f: "func (g_bmt_test_cases example_registry ! 0) = Some (mark 1)"
    by (simp add: example_registry_facts registered_entry_def example_tests_def)
  have b: "mark 1 (snd (start_test 0 example_registry)) = Normal ?w \<or>
           mark 1 (snd (start_test 0 example_registry)) = Longjmp ?w"
    by (simp add: mark_def)
  have i: "0 < length (g_bmt_test_cases example_registry)"
    by (simp add: example_registry_facts)
  have buf: "12 \<le> length (buffer example_locals)"
    by (simp add: example_locals_def stack_array_def)
  from duration_is_wraparound_safe [OF f b i buf] show ?thesis
    by (auto simp: Let_def example_registry_facts program_start_def wrapping_clock_def
        example_locals_def)
qed

text \<open>
  C6: \<open>ADD_FAILURE\<close> reports and lets the body go on, but it does not set the flag. The run
  of a program whose only test calls \<open>ADD_FAILURE\<close> and then leaves the mark 5 prints the
  report, leaves the mark, records the test as passed and returns 0.
\<close>

theorem add_failure_leaves_the_test_passed:
  "(case bmt_run_all_tests add_failure_program of
      Inl e \<Rightarrow> False
    | Inr (r, s') \<Rightarrow>
        r = 0 \<and> last_run_passed (g_bmt_test_cases s' ! 0) \<and> user (world s') = [5] \<and>
        emitted (world s') =
          ''[==========] Running 1 tests.'' @ CR_LF @
          ''[ RUN      ] Example.AddFailure'' @ CR_LF @
          ''example.c:30: Failure'' @ CR_LF @
          ''  ADD_FAILURE(Explicit failure triggered by ADD_FAILURE())'' @ CR_LF @
          ''[       OK ] Example.AddFailure (0 ms)'' @ CR_LF @
          ''[==========] 1 tests ran. (0 ms total)'' @ CR_LF @
          ''[  PASSED  ] 1 tests.'' @ CR_LF @
          CR_LF @
          ''0 FAILED TESTS'' @ CR_LF)"
  by code_simp

text \<open>
  C7: registering \<open>n\<close> tests, \<open>n\<close> at most the capacity, from the start of the program
  leaves a count of \<open>n\<close> and, in the first \<open>n\<close> entries, the descriptors of the tests in
  the order of their registration; the loop of the runner is the iteration for entry 0, then
  for entry 1, and so on to entry \<open>n - 1\<close>. When the \<open>k\<close>-th registered body leaves the
  mark \<open>k\<close>, the run leaves the marks \<open>0, 1, ..., n - 1\<close> in this order.
\<close>

theorem tests_run_in_registration_order:
  assumes "length tests \<le> BMT_MAX_TEST_CASES" and "n \<le> BMT_MAX_TEST_CASES"
  shows "(let s = register_all tests (program_start ticks u)
          in g_bmt_test_count s = length tests \<and>
             take (length tests) (g_bmt_test_cases s) = map registered_entry tests \<and>
             (\<forall>k<length tests. func (g_bmt_test_cases s ! k) = Some (snd (snd (tests ! k)))) \<and>
             run_loop 0 l s = foldl then_run_test (Inr (l, s)) [0..<length tests]) \<and>
         (\<exists>r s'. bmt_run_all_tests (register_all (marking_tests suite name n) (program_start ticks' [])) =
                   Inr (r, s') \<and> user (world s') = [0..<n])"
proof -
  note r = register_all_program_start [OF assms(1), where ticks = ticks and u = u]
  have "\<forall>k<length tests. func (g_bmt_test_cases (register_all tests (program_start ticks u)) ! k) =
      Some (snd (snd (tests ! k)))"
    using r(4) by (simp add: registered_entry_def)
  moreover have "run_loop 0 l (register_all tests (program_start ticks u)) =
      foldl then_run_test (Inr (l, register_all tests (program_start ticks u))) [0..<length tests]"
    using run_loop_foldl [of 0 l "register_all tests (program_start ticks u)"] r(2) by simp
  ultimately show ?thesis
    using r(2) take_registered [OF assms(1), where ticks = ticks and u = u]
      marks_run_in_order [OF assms(2), where suite = suite and name = name and ticks = ticks']
    by (simp add: Let_def)
qed

theorem tests_run_in_registration_order_witness:
  "g_bmt_test_count example_registry = 3 \<and>
   map suite_name (take 3 (g_bmt_test_cases example_registry)) = [''Example'', ''Example'', ''Example''] \<and>
   map test_name (take 3 (g_bmt_test_cases example_registry)) = [''Passes'', ''Fatal'', ''Expect''] \<and>
   (\<exists>r s'. bmt_run_all_tests
       (register_all (marking_tests (\<lambda>k. ''Order'') (\<lambda>k. ''Step'') 5) (program_start (\<lambda>n. 0) [])) =
         Inr (r, s') \<and> user (world s') = [0, 1, 2, 3, 4])"
proof -
  have a: "length example_tests \<le> BMT_MAX_TEST_CASES"
    by (simp add: example_tests_def BMT_MAX_TEST_CASES_def)
  have b: "5 \<le> BMT_MAX_TEST_CASES" by (simp add: BMT_MAX_TEST_CASES_def)
  have five: "[0..<5] = [0, 1, 2, 3, 4]" by (simp add: upt_rec)
  from tests_run_in_registration_order [OF a b, where ticks = wrapping_clock and u = "[]"
      and l = example_locals and suite = "\<lambda>k. ''Order''" and name = "\<lambda>k. ''Step''"
      and ticks' = "\<lambda>n. 0", folded example_registry_def]
  show ?thesis
    by (simp add: Let_def five example_tests_def registered_entry_def numeral_3_eq_3
        BMT_MAX_SUITE_NAME_LEN_def BMT_MAX_TEST_NAME_LEN_def)
qed

text \<open>
  C8: for the most negative \<open>long\<close>, of 32 or of 64 bits, \<open>bmt_itoa\<close> with radix 10 leaves
  only the sign in the buffer: the negation gives the same value back, which is not positive,
  and neither loop runs.
\<close>

theorem bmt_itoa_of_LONG_MIN:
  "bmt_itoa (- 2147483648 :: 32 word) (stack_array 20) 10 = Inr (''-'' @ NUL # stack_array 18) \<and>
   bmt_itoa (- 9223372036854775808 :: 64 word) (stack_array 20) 10 = Inr (''-'' @ NUL # stack_array 18) \<and>
   c_str (''-'' @ NUL # stack_array 18) = ''-''"
  by code_simp

text \<open>
  C9: for a message format that ends in \<open>%\<close>, \<open>bmt_report_failure\<close> takes the terminator
  for the directive character, steps over it, and reads the memory after the string.
\<close>

theorem trailing_percent_is_read_past:
  "bmt_report_failure ''example.c'' 7 ''EXPECT_TRUE'' ''done == all'' (Some ''100%'') [] w =
     Inl Out_of_bounds_read"
proof -
  have it: "bmt_itoa (7 :: long) (stack_array 12) 10 = Inr (after_itoa (7 :: long) (stack_array 12))"
    using length_itoa_text_long [of 7] by (simp add: bmt_itoa_text after_itoa_def stack_array_def)
  obtain rest where fl: "failure_line ''EXPECT_TRUE'' ''done == all'' =
      Inr (failure_text ''EXPECT_TRUE'' ''done == all'' @ NUL # rest)"
    using failure_line_ok [of "''EXPECT_TRUE''" "''done == all''"] by (auto simp: NUL_def)
  have "format_message ''100%'' 0 [] w' = format_message (''100'' @ ''%'') (length ''100'') []
      (bmt_platform_puts ''100'' w')" for w' :: "'a world"
    by (simp add: format_message_literal NUL_def putchar_as_puts puts_puts)
  then have fm: "format_message ''100%'' 0 [] w' = Inl Out_of_bounds_read" for w' :: "'a world"
    by (simp only: format_message_trailing_percent)
  show ?thesis
    by (simp add: bmt_report_failure_def Let_def it fl fm)
qed

text \<open>
  C10: when \<open>bmt_run_all_tests\<close> returns, the number of passed tests and the number of failed
  tests add up to the number of registered tests, and the value returned, the number of failed
  tests, lies between 0 and the number of registered tests. An iteration of the loop adds one
  to the one counter or to the other, and leaves the other as it was.
\<close>

theorem counters_cover_every_test:
  assumes "bmt_run_all_tests s = Inr (r, s')" and "run_test i l sa = Inr (l', sa')"
  shows "(\<exists>l0 s0 l1 s1. run_header s = Inr (l0, s0) \<and> run_loop 0 l0 s0 = Inr (l1, s1) \<and>
            tests_passed l1 + tests_failed l1 = int (g_bmt_test_count s) \<and>
            r = tests_failed l1 \<and> 0 \<le> r \<and> r \<le> int (g_bmt_test_count s)) \<and>
         (tests_passed l' = tests_passed l + 1 \<and> tests_failed l' = tests_failed l \<or>
          tests_passed l' = tests_passed l \<and> tests_failed l' = tests_failed l + 1)"
proof
  from assms(1) obtain l0 s0 l1 s1 where h: "run_header s = Inr (l0, s0)"
    and lp: "run_loop 0 l0 s0 = Inr (l1, s1)" and r: "r = tests_failed l1"
    by (rule bmt_run_all_tests_Inr)
  note hs = run_header_state [OF h]
  from run_loop_counters [OF lp]
  have "tests_passed l1 + tests_failed l1 = int (g_bmt_test_count s)"
    and "0 \<le> tests_passed l1" and "0 \<le> tests_failed l1"
    by (simp_all add: hs)
  then show "\<exists>l0 s0 l1 s1. run_header s = Inr (l0, s0) \<and> run_loop 0 l0 s0 = Inr (l1, s1) \<and>
            tests_passed l1 + tests_failed l1 = int (g_bmt_test_count s) \<and>
            r = tests_failed l1 \<and> 0 \<le> r \<and> r \<le> int (g_bmt_test_count s)"
    using h lp r by (intro exI [of _ l0] exI [of _ s0] exI [of _ l1] exI [of _ s1]) simp
next
  from run_test_Inr(1) [OF assms(2)] obtain tc where
    "g_bmt_test_cases sa' = (g_bmt_test_cases sa)[i := tc] \<and>
     suite_name tc = suite_name (g_bmt_test_cases sa ! i) \<and>
     test_name tc = test_name (g_bmt_test_cases sa ! i) \<and>
     func tc = func (g_bmt_test_cases sa ! i) \<and>
     tests_passed l' = tests_passed l + (if last_run_passed tc then 1 else 0) \<and>
     tests_failed l' = tests_failed l + (if last_run_passed tc then 0 else 1) \<and>
     total_duration_ms l' = total_duration_ms l + duration_ms tc" ..
  then show "tests_passed l' = tests_passed l + 1 \<and> tests_failed l' = tests_failed l \<or>
          tests_passed l' = tests_passed l \<and> tests_failed l' = tests_failed l + 1"
    by (cases "last_run_passed tc") simp_all
qed

theorem counters_cover_every_test_witness:
  "\<exists>r s' l' sa'. bmt_run_all_tests example_registry = Inr (r, s') \<and> 0 \<le> r \<and> r \<le> 3 \<and>
     run_test 0 example_locals example_registry = Inr (l', sa') \<and>
     (tests_passed l' = 1 \<and> tests_failed l' = 0 \<or> tests_passed l' = 0 \<and> tests_failed l' = 1)"
proof -
  from bmt_run_all_tests_total [OF runnable_example_registry] obtain r s'
    where run: "bmt_run_all_tests example_registry = Inr (r, s')"
    by blast
  have "func (g_bmt_test_cases example_registry ! 0) = Some (mark 1)"
    by (simp add: example_registry_facts registered_entry_def example_tests_def)
  moreover have "12 \<le> length (buffer example_locals)"
    by (simp add: example_locals_def stack_array_def)
  ultimately obtain l' sa' where one: "run_test 0 example_locals example_registry = Inr (l', sa')"
    using run_test_total [OF _ _ fault_free_mark] by blast
  from counters_cover_every_test [OF run one]
  have "0 \<le> r \<and> r \<le> 3 \<and>
     (tests_passed l' = 1 \<and> tests_failed l' = 0 \<or> tests_passed l' = 0 \<and> tests_failed l' = 1)"
    by (auto simp: example_registry_facts example_locals_def)
  with run one show ?thesis by blast
qed

end
